theory Spec2Isabelle
  imports Complex_Main
begin

section \<open>JavaScript values and failures\<close>

text \<open>
  A thrown value, as the retry wrapper inspects it. \<open>HttpError st\<close> is an error that
  carries \<open>error.response\<close> with \<open>error.response.status = st\<close> (what the HTTP client
  raises for a reply outside 2xx). \<open>OtherError m\<close> is an error with no \<open>response\<close>
  property (connection reset, timeout, a TypeError), with message \<open>m\<close>.
\<close>

datatype js_error = HttpError nat | OtherError string

text \<open>
  The second disjunct of the throw condition of \<open>withRetry\<close>:
  \<^verbatim>\<open>error.response && error.response.status !== 429 && error.response.status !== 503\<close>.
\<close>

fun fatal_status :: "js_error \<Rightarrow> bool" where
  "fatal_status (HttpError st) = (st \<noteq> 429 \<and> st \<noteq> 503)"
| "fatal_status (OtherError m) = False"

section \<open>utils: withRetry\<close>

text \<open>
  JavaScript numbers that are durations are modelled as exact rationals; rounding of
  doubles is not modelled. \<open>r\<close> is the value of \<open>Math.random()\<close>.
  \<^verbatim>\<open>Math.min(maxDelay, baseDelay * Math.pow(2, retries) * (0.8 + Math.random() * 0.4))\<close>
\<close>

definition backoff_delay :: "rat \<Rightarrow> rat \<Rightarrow> nat \<Rightarrow> rat \<Rightarrow> rat" where
  "backoff_delay baseDelay maxDelay retries r =
     min maxDelay (baseDelay * 2 ^ retries * (8 / 10 + r * (4 / 10)))"

text \<open>
  The \<open>while (true)\<close> loop of \<open>withRetry\<close>. The wrapped operation is an effect, so it
  is given by its outcomes: \<open>fn k\<close> is what invocation number \<open>k\<close> (from 0) does,
  \<open>Inr v\<close> when it returns \<open>v\<close> and \<open>Inl e\<close> when it throws \<open>e\<close>. Every pass of the loop
  invokes \<open>fn\<close> once and a failed pass increments \<open>retries\<close>, so the invocation made
  in a pass is number \<open>retries\<close>. \<open>rnd k\<close> is the \<open>Math.random()\<close> drawn in that pass.
  The result pairs what the call returns or throws with the list of the durations it
  has slept, in order.
\<close>

function withRetry_loop ::
  "nat \<Rightarrow> (nat \<Rightarrow> js_error + 'a) \<Rightarrow> (nat \<Rightarrow> rat) \<Rightarrow> nat \<Rightarrow> rat \<Rightarrow> rat \<Rightarrow> rat list
     \<Rightarrow> (js_error + 'a) \<times> rat list" where
  "withRetry_loop retries fn rnd maxRetries baseDelay maxDelay slept =
     (case fn retries of
        Inr v \<Rightarrow> (Inr v, slept)
      | Inl error \<Rightarrow>
          if retries \<ge> maxRetries \<or> fatal_status error then (Inl error, slept)
          else withRetry_loop (retries + 1) fn rnd maxRetries baseDelay maxDelay
                 (slept @ [backoff_delay baseDelay maxDelay retries (rnd retries)]))"
  by pat_completeness auto
termination
  by (relation "measure (\<lambda>(retries, fn, rnd, maxRetries, baseDelay, maxDelay, slept). maxRetries - retries)") auto

definition withRetry ::
  "(nat \<Rightarrow> js_error + 'a) \<Rightarrow> (nat \<Rightarrow> rat) \<Rightarrow> nat \<Rightarrow> rat \<Rightarrow> rat \<Rightarrow> (js_error + 'a) \<times> rat list" where
  "withRetry fn rnd maxRetries baseDelay maxDelay =
     withRetry_loop 0 fn rnd maxRetries baseDelay maxDelay []"

text \<open>
  JavaScript numbers as the credit code meets them: the result of \<open>parseFloat\<close> is a
  number or \<open>NaN\<close>. Finite numbers are exact rationals here; \<open>+\<close> on two numbers is
  \<open>js_add\<close>, and anything added to \<open>NaN\<close> is \<open>NaN\<close>.
\<close>

datatype jsnum = NaN | Num rat


text \<open>
  The value of a property of a JSON object. \<open>JUndefined\<close> is what reading a missing
  property gives. \<open>JOther s\<close> is an array or object, with \<open>s\<close> the string that
  \<open>String(...)\<close> makes of it.
\<close>

datatype jsval = JUndefined | JNull | JBool bool | JNumber jsnum | JString string | JOther string

fun truthy :: "jsval \<Rightarrow> bool" where
  "truthy JUndefined = False"
| "truthy JNull = False"
| "truthy (JBool b) = b"
| "truthy (JNumber NaN) = False"
| "truthy (JNumber (Num x)) = (x \<noteq> 0)"
| "truthy (JString s) = (s \<noteq> [])"
| "truthy (JOther s) = True"

text \<open>\<open>a || b\<close>\<close>

definition js_or :: "jsval \<Rightarrow> jsval \<Rightarrow> jsval" where
  "js_or a b = (if truthy a then a else b)"

text \<open>
  \<open>response.data\<close> of an HTTP reply: \<open>BNull\<close> is \<open>null\<close>, \<open>BFalsy\<close> any other falsy
  value (\<open>undefined\<close>, the empty string of an empty reply, \<open>0\<close>, \<open>false\<close>), and
  \<open>BObj m\<close> a truthy value with the properties \<open>m\<close>: an object, or a string, number or
  array read through its own enumerable properties.
\<close>

datatype body = BNull | BFalsy | BObj "string \<Rightarrow> jsval option"

fun body_truthy :: "body \<Rightarrow> bool" where
  "body_truthy (BObj m) = True"
| "body_truthy BNull = False"
| "body_truthy BFalsy = False"

fun is_null :: "body \<Rightarrow> bool" where
  "is_null BNull = True"
| "is_null BFalsy = False"
| "is_null (BObj m) = False"

text \<open>\<open>data.k\<close> on a truthy \<open>data\<close>, and the properties that \<open>...data\<close> spreads.\<close>

fun body_field :: "body \<Rightarrow> string \<Rightarrow> jsval" where
  "body_field (BObj m) k = (case m k of None \<Rightarrow> JUndefined | Some v \<Rightarrow> v)"
| "body_field BNull k = JUndefined"
| "body_field BFalsy k = JUndefined"

fun spread :: "body \<Rightarrow> (string \<Rightarrow> jsval option)" where
  "spread (BObj m) = m"
| "spread BNull = Map.empty"
| "spread BFalsy = Map.empty"

section \<open>api: checkCredit\<close>

text \<open>
  The object the \<open>catch\<close> clause of \<open>checkCredit\<close> returns; \<open>now\<close> is
  \<open>new Date().toISOString()\<close>.
\<close>

definition default_credit :: "string \<Rightarrow> (string \<Rightarrow> jsval option)" where
  "default_credit now =
     [''credits'' \<mapsto> JString ''0'', ''free_credits'' \<mapsto> JString ''480.0000'',
      ''expense_at'' \<mapsto> JString now, ''income_at'' \<mapsto> JString now]"

text \<open>
  \<open>checkCredit\<close>: \<open>get k\<close> is what request number \<open>k\<close> to \<open>/v1/credit\<close> does. The
  \<open>try\<close> block is the \<open>Inr\<close> branch, the \<open>catch\<close> clause the \<open>Inl\<close> branch; the whole
  body of the function is inside the \<open>try\<close>, so no error leaves it.
\<close>

definition checkCredit :: "(nat \<Rightarrow> js_error + body) \<Rightarrow> (nat \<Rightarrow> rat) \<Rightarrow> string \<Rightarrow> body" where
  "checkCredit get rnd now =
     (case fst (withRetry get rnd 5 5000 60000) of
        Inl error \<Rightarrow> BObj (default_credit now)
      | Inr rdata \<Rightarrow>
          if \<not> body_truthy rdata
             \<or> (body_field rdata ''credits'' = JUndefined \<and> body_field rdata ''free_credits'' = JUndefined)
          then (if body_truthy rdata
                then BObj ([''credits'' \<mapsto> js_or (body_field rdata ''credits'') (JString ''0''),
                            ''free_credits'' \<mapsto> js_or (body_field rdata ''free_credits'') (JString ''480.0000'')]
                           ++ spread rdata)
                else rdata)
          else rdata)"

section \<open>wallet: initWallet and checkWalletCredit\<close>

record wallet =
  address :: string
  privateKey :: string

text \<open>
  \<open>newWallet k\<close> is \<open>new ethers.Wallet(k)\<close>: \<open>Inr a\<close> when the library accepts the key
  and derives the address \<open>a\<close>, \<open>Inl e\<close> when it throws. The result \<open>None\<close> is \<open>null\<close>.
\<close>

definition initWallet :: "(string \<Rightarrow> js_error + string) \<Rightarrow> string \<Rightarrow> wallet option" where
  "initWallet newWallet key =
     (let key' = (if \<not> (take 2 key = ''0x'') then ''0x'' @ key else key)
      in case newWallet key' of
           Inl error \<Rightarrow> None
         | Inr a \<Rightarrow> Some \<lparr>address = a, privateKey = key'\<rparr>)"




section \<open>proxy: getWorkingProxy\<close>

text \<open>
  The \<open>for\<close> loop of \<open>getWorkingProxy\<close>. \<open>isProxyWorking i p\<close> is the answer of health
  check number \<open>i\<close>, made on proxy \<open>p\<close>; the loop makes check \<open>i\<close> in pass \<open>i\<close>.
  \<open>None\<close> means that the loop ran to its end.
\<close>

function getWorkingProxy_loop :: "(nat \<Rightarrow> 'p \<Rightarrow> bool) \<Rightarrow> 'p list \<Rightarrow> nat \<Rightarrow> 'p option" where
  "getWorkingProxy_loop isProxyWorking shuffled i =
     (if i < min 5 (length shuffled) then
        (if isProxyWorking i (shuffled ! i) then Some (shuffled ! i)
         else getWorkingProxy_loop isProxyWorking shuffled (i + 1))
      else None)"
  by pat_completeness auto
termination
  by (relation "measure (\<lambda>(isProxyWorking, shuffled, i). min 5 (length shuffled) - i)") auto

text \<open>
  \<open>getWorkingProxy\<close>. The pool is \<open>None\<close> when the argument is missing (\<open>null\<close> or
  \<open>undefined\<close>). \<open>shuffle\<close> is \<open>[...proxies].sort(() => 0.5 - Math.random())\<close>, whose
  order the engine and the draws decide. The result \<open>None\<close> is \<open>null\<close>, or the
  \<open>undefined\<close> that \<open>shuffled[0]\<close> is on an empty array.
\<close>

definition getWorkingProxy ::
  "('p list \<Rightarrow> 'p list) \<Rightarrow> (nat \<Rightarrow> 'p \<Rightarrow> bool) \<Rightarrow> 'p list option \<Rightarrow> 'p option" where
  "getWorkingProxy shuffle isProxyWorking proxies =
     (case proxies of
        None \<Rightarrow> None
      | Some ps \<Rightarrow>
          if length ps = 0 then None
          else
            let shuffled = shuffle ps
            in case getWorkingProxy_loop isProxyWorking shuffled 0 of
                 Some p \<Rightarrow> Some p
               | None \<Rightarrow> (if shuffled = [] then None else Some (shuffled ! 0)))"

section \<open>api: getAgentInfo and sendChatMessage\<close>

text \<open>
  The reply of the agent lookup: an array of agents, or anything else. An agent is
  given by its \<open>id\<close>: \<open>None\<close> when the element is \<open>null\<close> or has no \<open>id\<close>.
\<close>

datatype agents_data = AgentList "nat option list" | NotAgentList

definition getAgentInfo :: "(nat \<Rightarrow> js_error + agents_data) \<Rightarrow> (nat \<Rightarrow> rat) \<Rightarrow> nat option" where
  "getAgentInfo get rnd =
     (case fst (withRetry get rnd 3 3000 30000) of
        Inl error \<Rightarrow> Some 4717
      | Inr (AgentList (a # rest)) \<Rightarrow> a
      | Inr (AgentList []) \<Rightarrow> Some 4717
      | Inr NotAgentList \<Rightarrow> Some 4717)"

text \<open>
  The reply of the chat endpoint. An element of the array is \<open>null\<close>, or a value given
  by its \<open>message\<close> property (\<open>None\<close> when that is not a string). \<open>NoData\<close> is a falsy
  body; \<open>OtherData\<close> a truthy body that is not an array and whose \<open>length\<close> is not 0.
\<close>

datatype chat_elem = NullElem | Elem "string option"

datatype chat_data = NoData | Messages "chat_elem list" | OtherData

text \<open>
  What \<open>sendChatMessage\<close> returns: the marker object \<open>{ insufficientBalance: true }\<close>,
  or \<open>response.data\<close>, or the \<open>[]\<close> of its \<open>catch\<close> clause.
\<close>

datatype send_result = InsufficientBalance | Data chat_data

text \<open>
  \<open>sendChatMessage\<close>: \<open>req k\<close> is what request number \<open>k\<close> of this call does. Reading
  \<open>firstMessage.message\<close> of a \<open>null\<close> element throws inside the \<open>try\<close>, so the
  \<open>catch\<close> clause answers. The pause after the reply changes no value.
\<close>

definition sendChatMessage :: "(nat \<Rightarrow> js_error + chat_data) \<Rightarrow> (nat \<Rightarrow> rat) \<Rightarrow> send_result" where
  "sendChatMessage req rnd =
     (case fst (withRetry req rnd 3 5000 30000) of
        Inl error \<Rightarrow> Data (Messages [])
      | Inr rdata \<Rightarrow>
          (case rdata of
             Messages (NullElem # rest) \<Rightarrow> Data (Messages [])
           | Messages (Elem m # rest) \<Rightarrow>
               if m = Some ''Insufficient balance.'' then InsufficientBalance else Data rdata
           | Messages [] \<Rightarrow> Data rdata
           | NoData \<Rightarrow> Data rdata
           | OtherData \<Rightarrow> Data rdata))"

section \<open>chat: startChatSession\<close>

text \<open>\<open>!response || response.length === 0\<close>; the marker object has no \<open>length\<close>.\<close>

fun no_response :: "send_result \<Rightarrow> bool" where
  "no_response InsufficientBalance = False"
| "no_response (Data NoData) = True"
| "no_response (Data (Messages ms)) = (length ms = 0)"
| "no_response (Data OtherData) = False"

text \<open>
  What a chat session meets. \<open>post j k\<close> is request number \<open>k\<close> of call number \<open>j\<close> of
  \<open>sendChatMessage\<close> (call 0 sends the opening prompt). The \<open>rnd\<close> fields are the values
  of \<open>Math.random()\<close>, by the place that draws them; \<open>rnd_prompt\<close> is the sequence drawn
  by the prompt selection, over the whole session.
\<close>

record chat_world =
  agents_get :: "nat \<Rightarrow> js_error + agents_data"
  agents_jitter :: "nat \<Rightarrow> rat"
  post :: "nat \<Rightarrow> nat \<Rightarrow> js_error + chat_data"
  jitter :: "nat \<Rightarrow> nat \<Rightarrow> rat"
  rnd_initial :: rat
  rnd_item :: rat
  rnd_count :: rat
  rnd_prompt :: "nat \<Rightarrow> rat"

text \<open>
  The session's variables and what it has done: the indices chosen, the prompts passed to
  \<open>sendChatMessage\<close> in order (\<open>None\<close> is \<open>undefined\<close>), and how many replies were
  logged as received and how many as missing.
\<close>

record chat_state =
  usedPromptIndices :: "int set"
  draws :: nat
  chosen :: "int list"
  sent :: "string option list"
  received :: nat
  skipped :: nat

text \<open>\<open>arr[i]\<close>: \<open>undefined\<close> outside the array.\<close>

definition at_index :: "'a list \<Rightarrow> int \<Rightarrow> 'a option" where
  "at_index arr i = (if 0 \<le> i \<and> i < int (length arr) then Some (arr ! nat i) else None)"

text \<open>\<open>Math.floor(Math.random() * n)\<close>, with \<open>r\<close> the draw.\<close>

definition random_index :: "rat \<Rightarrow> nat \<Rightarrow> int" where
  "random_index r n = \<lfloor>r * of_nat n\<rfloor>"

definition getRandomItem :: "'a list \<Rightarrow> int \<Rightarrow> rat \<Rightarrow> 'a option" where
  "getRandomItem arr index r =
     (if index \<ge> 0 \<and> index < int (length arr) then at_index arr index
      else at_index arr (random_index r (length arr)))"

text \<open>
  The \<open>do ... while\<close> loop that selects a prompt. \<open>attempts0\<close> is \<open>attempts\<close> and \<open>used\<close>
  the used set when a pass starts, \<open>pos\<close> the number of draws already taken from \<open>rnd\<close>.
  It returns \<open>promptIndex\<close>, \<open>attempts\<close>, the used set and the number of draws taken,
  as they are when the loop ends.
\<close>

function pick_prompt ::
  "(nat \<Rightarrow> rat) \<Rightarrow> nat \<Rightarrow> int \<Rightarrow> nat \<Rightarrow> int set \<Rightarrow> nat \<Rightarrow> int \<times> nat \<times> int set \<times> nat" where
  "pick_prompt rnd len initialPromptIndex attempts0 used pos =
     (let promptIndex = random_index (rnd pos) len;
          attempts = attempts0 + 1;
          used' = (if attempts > len then {initialPromptIndex} else used)
      in if promptIndex \<in> used' \<and> attempts \<le> len
         then pick_prompt rnd len initialPromptIndex attempts used' (pos + 1)
         else (promptIndex, attempts, used', pos + 1))"
  by pat_completeness auto
termination
  by (relation "measure (\<lambda>(rnd, len, initialPromptIndex, attempts0, used, pos). len + 1 - attempts0)") auto

text \<open>
  One pass of the \<open>for\<close> loop of \<open>startChatSession\<close>. Call number
  \<open>length (sent st)\<close> of \<open>sendChatMessage\<close> is the next one. A missing reply is
  logged and the pass ends there (\<open>continue\<close>); any other reply is logged as received.
\<close>

definition chat_pass :: "chat_world \<Rightarrow> string list \<Rightarrow> int \<Rightarrow> chat_state \<Rightarrow> chat_state" where
  "chat_pass w chatPrompts initialPromptIndex st =
     (case pick_prompt (rnd_prompt w) (length chatPrompts) initialPromptIndex 0
             (usedPromptIndices st) (draws st) of
        (promptIndex, attempts, used, pos) \<Rightarrow>
          let j = length (sent st);
              st1 = st\<lparr>usedPromptIndices := insert promptIndex used, draws := pos,
                       chosen := chosen st @ [promptIndex],
                       sent := sent st @ [at_index chatPrompts promptIndex]\<rparr>;
              response = sendChatMessage (post w j) (jitter w j)
          in if no_response response then st1\<lparr>skipped := skipped st1 + 1\<rparr>
             else st1\<lparr>received := received st1 + 1\<rparr>)"

text \<open>The \<open>for\<close> loop, from pass \<open>i\<close>: \<open>for (let i = 0; i < promptCount; i++)\<close>.\<close>

function chat_loop :: "chat_world \<Rightarrow> string list \<Rightarrow> int \<Rightarrow> int \<Rightarrow> nat \<Rightarrow> chat_state \<Rightarrow> chat_state" where
  "chat_loop w chatPrompts initialPromptIndex promptCount i st =
     (if int i < promptCount then
        chat_loop w chatPrompts initialPromptIndex promptCount (i + 1)
          (chat_pass w chatPrompts initialPromptIndex st)
      else st)"
  by pat_completeness auto
termination
  by (relation "measure (\<lambda>(w, chatPrompts, initialPromptIndex, promptCount, i, st). nat (promptCount - int i))") auto

text \<open>
  \<open>startChatSession\<close>, with \<open>mn\<close> and \<open>mx\<close> the configured message count range. It
  returns the boolean of the source and the final state. The chat history request and
  the pauses change no value and are left out.
\<close>

definition startChatSession :: "chat_world \<Rightarrow> int \<Rightarrow> int \<Rightarrow> string list \<Rightarrow> bool \<times> chat_state" where
  "startChatSession w mn mx chatPrompts =
     (let agent = getAgentInfo (agents_get w) (agents_jitter w);
          st = \<lparr>usedPromptIndices = {}, draws = 0, chosen = [], sent = [], received = 0, skipped = 0\<rparr>
      in if agent = None \<or> agent = Some 0 then (False, st)
         else
           let initialPromptIndex = random_index (rnd_initial w) (length chatPrompts);
               initialPrompt = getRandomItem chatPrompts initialPromptIndex (rnd_item w);
               st0 = st\<lparr>usedPromptIndices := {initialPromptIndex}, chosen := [initialPromptIndex],
                        sent := [initialPrompt]\<rparr>;
               initialResponse = sendChatMessage (post w 0) (jitter w 0)
           in if no_response initialResponse then (False, st0)
              else
                let promptCount = \<lfloor>rnd_count w * of_int (mx - mn + 1)\<rfloor> + mn - 1
                in (True, chat_loop w chatPrompts initialPromptIndex promptCount 0
                            (st0\<lparr>received := 1\<rparr>)))"

section \<open>auth: login and authenticate\<close>

text \<open>
  The three request steps of one attempt. Each returns \<open>response.data\<close>, or \<open>null\<close>
  from its \<open>catch\<close> clause. In \<open>login\<close> the inner \<open>catch\<close> returns \<open>null\<close> on status 404
  and throws the error again otherwise; the outer \<open>catch\<close> then returns \<open>null\<close>.
\<close>

definition initSIWE :: "(nat \<Rightarrow> js_error + body) \<Rightarrow> (nat \<Rightarrow> rat) \<Rightarrow> body" where
  "initSIWE req rnd =
     (case fst (withRetry req rnd 3 5000 60000) of Inl error \<Rightarrow> BNull | Inr rdata \<Rightarrow> rdata)"

definition authenticateSIWE :: "(nat \<Rightarrow> js_error + body) \<Rightarrow> (nat \<Rightarrow> rat) \<Rightarrow> body" where
  "authenticateSIWE req rnd =
     (case fst (withRetry req rnd 3 5000 60000) of Inl error \<Rightarrow> BNull | Inr rdata \<Rightarrow> rdata)"

definition login_inner :: "(nat \<Rightarrow> js_error + body) \<Rightarrow> (nat \<Rightarrow> rat) \<Rightarrow> js_error + body" where
  "login_inner req rnd =
     (case fst (withRetry req rnd 3 5000 60000) of
        Inr rdata \<Rightarrow> Inr rdata
      | Inl error \<Rightarrow> (if error = HttpError 404 then Inr BNull else Inl error))"

definition login :: "(nat \<Rightarrow> js_error + body) \<Rightarrow> (nat \<Rightarrow> rat) \<Rightarrow> body" where
  "login req rnd = (case login_inner req rnd of Inr rdata \<Rightarrow> rdata | Inl error \<Rightarrow> BNull)"

text \<open>
  What one wallet's authentication meets. The first argument of each field is the
  attempt (\<open>attemptCount\<close>, from 1); for the requests the second is the number of the
  request within the step. \<open>signMessage\<close> gives the signature, or throws.
\<close>

record auth_world =
  siwe_init :: "nat \<Rightarrow> nat \<Rightarrow> js_error + body"
  signMessage :: "nat \<Rightarrow> js_error + string"
  siwe_authenticate :: "nat \<Rightarrow> nat \<Rightarrow> js_error + body"
  login_post :: "nat \<Rightarrow> nat \<Rightarrow> js_error + body"
  userAgentOf :: "nat \<Rightarrow> string"
  init_jitter :: "nat \<Rightarrow> nat \<Rightarrow> rat"
  authenticate_jitter :: "nat \<Rightarrow> nat \<Rightarrow> rat"
  login_jitter :: "nat \<Rightarrow> nat \<Rightarrow> rat"

record auth_data =
  accessToken :: jsval
  refreshToken :: jsval
  walletAddress :: string
  privyToken :: jsval
  userAgent :: string

text \<open>
  The loop's counter and what the loop has done: the calls of \<open>initSIWE\<close> and of
  \<open>login\<close>, and the pauses between attempts.
\<close>

record auth_state =
  attemptCount :: nat
  initCalls :: nat
  loginCalls :: nat
  pauses :: nat

definition maxAttempts :: nat where
  "maxAttempts = 2"

text \<open>The code after the \<open>try\<close> of an attempt; only a caught exception reaches it.\<close>

definition pause_before_next :: "auth_state \<Rightarrow> auth_state" where
  "pause_before_next st =
     (if attemptCount st < maxAttempts then st\<lparr>pauses := pauses st + 1\<rparr> else st)"

text \<open>
  The \<open>while\<close> loop of \<open>authenticate\<close>. \<open>authSuccess\<close> is set only just before the
  \<open>break\<close> that leaves the loop, so the loop condition is tested with it false. A
  \<open>continue\<close> goes to the next test of the condition, a \<open>break\<close> ends the loop.
\<close>

function auth_loop :: "auth_world \<Rightarrow> string \<Rightarrow> auth_state \<Rightarrow> auth_data option \<times> auth_state" where
  "auth_loop w wa st =
     (if attemptCount st < maxAttempts then
        let n = attemptCount st + 1;
            st1 = st\<lparr>attemptCount := n, initCalls := initCalls st + 1\<rparr>;
            siweData = initSIWE (siwe_init w n) (init_jitter w n)
        in if \<not> body_truthy siweData then auth_loop w wa st1
           else
             (case signMessage w n of
                Inl error \<Rightarrow> auth_loop w wa (pause_before_next st1)
              | Inr signature \<Rightarrow>
                  if signature = [] then auth_loop w wa st1
                  else
                    let siweAuthData = authenticateSIWE (siwe_authenticate w n) (authenticate_jitter w n)
                    in if \<not> body_truthy siweAuthData \<or> \<not> truthy (body_field siweAuthData ''token'')
                       then auth_loop w wa st1
                       else
                         let loginData = login (login_post w n) (login_jitter w n);
                             st2 = st1\<lparr>loginCalls := loginCalls st1 + 1\<rparr>
                         in if \<not> body_truthy loginData \<or> \<not> truthy (body_field loginData ''access_token'')
                            then (if is_null loginData then (None, st2) else auth_loop w wa st2)
                            else (Some \<lparr>accessToken = body_field loginData ''access_token'',
                                         refreshToken = body_field loginData ''refresh_token'',
                                         walletAddress = wa,
                                         privyToken = body_field siweAuthData ''token'',
                                         userAgent = userAgentOf w n\<rparr>, st2))
      else (None, st))"
  by pat_completeness auto
termination
  by (relation "measure (\<lambda>(w, wa, st). maxAttempts - attemptCount st)")
     (auto simp: pause_before_next_def)

text \<open>
  \<open>authenticate\<close>: \<open>newWallet\<close> is \<open>new ethers.Wallet(privateKey)\<close>, giving the address
  or throwing; the outer \<open>catch\<close> turns the throw into \<open>null\<close>.
\<close>

definition authenticate ::
  "auth_world \<Rightarrow> (string \<Rightarrow> js_error + string) \<Rightarrow> string \<Rightarrow> auth_data option \<times> auth_state" where
  "authenticate w newWallet key =
     (case newWallet key of
        Inl error \<Rightarrow> (None, \<lparr>attemptCount = 0, initCalls = 0, loginCalls = 0, pauses = 0\<rparr>)
      | Inr wa \<Rightarrow> auth_loop w wa \<lparr>attemptCount = 0, initCalls = 0, loginCalls = 0, pauses = 0\<rparr>)"

section \<open>Example worlds\<close>

text \<open>
  A chat world in which the agent lookup answers with agent 4717 and every draw but those
  of the prompt selection is 0: the opening index is 0 and, for a message count range
  \<open>[n, n]\<close>, the session plans \<open>n - 1\<close> more messages.
\<close>

definition example_chat_world ::
  "(nat \<Rightarrow> nat \<Rightarrow> js_error + chat_data) \<Rightarrow> (nat \<Rightarrow> rat) \<Rightarrow> chat_world" where
  "example_chat_world replies prompt_draws =
     \<lparr>agents_get = (\<lambda>k. Inr (AgentList [Some 4717])), agents_jitter = (\<lambda>k. 0),
      post = replies, jitter = (\<lambda>j k. 0),
      rnd_initial = 0, rnd_item = 0, rnd_count = 0, rnd_prompt = prompt_draws\<rparr>"

text \<open>
  An authentication world in which every step of every attempt succeeds, but for the
  login request, which fails with \<open>login_error\<close> every time.
\<close>

definition example_auth_world :: "js_error \<Rightarrow> auth_world" where
  "example_auth_world login_error =
     \<lparr>siwe_init = (\<lambda>n k. Inr (BObj [''nonce'' \<mapsto> JString ''abc''])),
      signMessage = (\<lambda>n. Inr ''0xsig''),
      siwe_authenticate = (\<lambda>n k. Inr (BObj [''token'' \<mapsto> JString ''tok''])),
      login_post = (\<lambda>n k. Inl login_error),
      userAgentOf = (\<lambda>n. ''Mozilla/5.0''),
      init_jitter = (\<lambda>n k. 0), authenticate_jitter = (\<lambda>n k. 0), login_jitter = (\<lambda>n k. 0)\<rparr>"

section \<open>Properties of withRetry\<close>

text \<open>The other loops are unfolded one pass at a time, where a proof asks for it.\<close>

declare getWorkingProxy_loop.simps [simp del]
declare pick_prompt.simps [simp del]
declare chat_loop.simps [simp del]
declare auth_loop.simps [simp del]

lemma withRetry_loop_shape:
  "\<exists>n. retries \<le> n \<and> n \<le> max retries maxRetries
     \<and> withRetry_loop retries fn rnd maxRetries baseDelay maxDelay slept
         = (fn n, slept @ map (\<lambda>k. backoff_delay baseDelay maxDelay k (rnd k)) [retries..<n])
     \<and> (\<forall>k. retries \<le> k \<and> k < n \<longrightarrow> (\<exists>e. fn k = Inl e \<and> \<not> fatal_status e))
     \<and> ((\<exists>v. fn n = Inr v) \<or> (\<exists>e. fn n = Inl e \<and> (maxRetries \<le> n \<or> fatal_status e)))"
proof (induction retries fn rnd maxRetries baseDelay maxDelay slept rule: withRetry_loop.induct)
  case (1 retries fn rnd maxRetries baseDelay maxDelay slept)
  show ?case
  proof (cases "fn retries")
    case (Inr v)
    then show ?thesis
      by (intro exI[of _ retries]) auto
  next
    case (Inl error)
    show ?thesis
    proof (cases "retries \<ge> maxRetries \<or> fatal_status error")
      case True
      with Inl show ?thesis
        by (intro exI[of _ retries]) auto
    next
      case False
      from "1.IH"[OF Inl False] obtain n where n:
        "retries + 1 \<le> n" "n \<le> max (retries + 1) maxRetries"
        "withRetry_loop (retries + 1) fn rnd maxRetries baseDelay maxDelay
           (slept @ [backoff_delay baseDelay maxDelay retries (rnd retries)])
         = (fn n, (slept @ [backoff_delay baseDelay maxDelay retries (rnd retries)])
              @ map (\<lambda>k. backoff_delay baseDelay maxDelay k (rnd k)) [retries + 1..<n])"
        "\<forall>k. retries + 1 \<le> k \<and> k < n \<longrightarrow> (\<exists>e. fn k = Inl e \<and> \<not> fatal_status e)"
        "(\<exists>v. fn n = Inr v) \<or> (\<exists>e. fn n = Inl e \<and> (maxRetries \<le> n \<or> fatal_status e))"
        by blast
      have up: "[retries..<n] = retries # [retries + 1..<n]"
        using n(1) by (simp add: upt_conv_Cons)
      have a: "retries \<le> n" using n(1) by simp
      have b: "n \<le> max retries maxRetries" using n(2) False by auto
      have c: "withRetry_loop retries fn rnd maxRetries baseDelay maxDelay slept
         = (fn n, slept @ map (\<lambda>k. backoff_delay baseDelay maxDelay k (rnd k)) [retries..<n])"
        using Inl False n(3) up by simp
      have d: "\<forall>k. retries \<le> k \<and> k < n \<longrightarrow> (\<exists>e. fn k = Inl e \<and> \<not> fatal_status e)"
      proof (intro allI impI)
        fix k assume k: "retries \<le> k \<and> k < n"
        show "\<exists>e. fn k = Inl e \<and> \<not> fatal_status e"
        proof (cases "k = retries")
          case True
          with Inl False show ?thesis by auto
        next
          case False
          with k have "retries + 1 \<le> k \<and> k < n" by simp
          with n(4) show ?thesis by blast
        qed
      qed
      from a b c d n(5) show ?thesis by blast
    qed
  qed
qed

lemma floor_rat_numeral [simp]: "\<lfloor>(numeral a / numeral b :: rat)\<rfloor> = numeral a div numeral b"
  by (metis floor_divide_of_int_eq of_int_numeral)

lemma withRetry_shape:
  "\<exists>n. n \<le> maxRetries
     \<and> withRetry fn rnd maxRetries baseDelay maxDelay
         = (fn n, map (\<lambda>k. backoff_delay baseDelay maxDelay k (rnd k)) [0..<n])
     \<and> (\<forall>k. k < n \<longrightarrow> (\<exists>e. fn k = Inl e \<and> \<not> fatal_status e))
     \<and> ((\<exists>v. fn n = Inr v) \<or> (\<exists>e. fn n = Inl e \<and> (maxRetries \<le> n \<or> fatal_status e)))"
  using withRetry_loop_shape[of 0 maxRetries fn rnd baseDelay maxDelay "[]"]
  unfolding withRetry_def by simp

lemma fatal_status_iff:
  "\<not> fatal_status e \<longleftrightarrow> (\<exists>m. e = OtherError m) \<or> e = HttpError 429 \<or> e = HttpError 503"
  by (cases e) auto

lemma withRetry_first_fatal:
  "fn 0 = Inl e \<Longrightarrow> fatal_status e \<Longrightarrow> withRetry fn rnd maxRetries baseDelay maxDelay = (Inl e, [])"
  by (simp add: withRetry_def)

text \<open>
  Claim C5, as the code has it. A call of \<open>withRetry\<close> that has slept \<open>n\<close> times has
  invoked the operation \<open>n + 1\<close> times and returns or throws what invocation \<open>n\<close> did;
  each of the invocations before it failed with an error that is not fatal, and invocation
  \<open>n\<close> succeeded, or failed with a fatal error, or failed when \<open>n\<close> had reached
  \<open>maxRetries\<close>. An error is fatal exactly when it carries an HTTP response whose
  status is neither 429 nor 503: an error with no response (a connection error) is
  retried like a 429 or a 503. A fatal error of the first invocation is thrown at once,
  with no sleep and no second invocation.
\<close>

theorem withRetry_retry_policy:
  "(\<exists>n. n = length (snd (withRetry fn rnd maxRetries baseDelay maxDelay))
        \<and> n \<le> maxRetries
        \<and> fst (withRetry fn rnd maxRetries baseDelay maxDelay) = fn n
        \<and> (\<forall>k. k < n \<longrightarrow> (\<exists>e. fn k = Inl e \<and> \<not> fatal_status e))
        \<and> ((\<exists>v. fn n = Inr v) \<or> (\<exists>e. fn n = Inl e \<and> (n = maxRetries \<or> fatal_status e))))
   \<and> (\<forall>e. \<not> fatal_status e \<longleftrightarrow> (\<exists>m. e = OtherError m) \<or> e = HttpError 429 \<or> e = HttpError 503)
   \<and> (\<forall>e. fn 0 = Inl e \<and> fatal_status e
          \<longrightarrow> withRetry fn rnd maxRetries baseDelay maxDelay = (Inl e, []))"
proof -
  obtain n where n: "n \<le> maxRetries"
    "withRetry fn rnd maxRetries baseDelay maxDelay
       = (fn n, map (\<lambda>k. backoff_delay baseDelay maxDelay k (rnd k)) [0..<n])"
    "\<forall>k. k < n \<longrightarrow> (\<exists>e. fn k = Inl e \<and> \<not> fatal_status e)"
    "(\<exists>v. fn n = Inr v) \<or> (\<exists>e. fn n = Inl e \<and> (maxRetries \<le> n \<or> fatal_status e))"
    using withRetry_shape[of maxRetries fn rnd baseDelay maxDelay] by blast
  have len: "length (snd (withRetry fn rnd maxRetries baseDelay maxDelay)) = n"
    using n(2) by simp
  have stop: "(\<exists>v. fn n = Inr v) \<or> (\<exists>e. fn n = Inl e \<and> (n = maxRetries \<or> fatal_status e))"
    using n(1) n(4) by auto
  have first: "\<exists>n. n = length (snd (withRetry fn rnd maxRetries baseDelay maxDelay))
        \<and> n \<le> maxRetries
        \<and> fst (withRetry fn rnd maxRetries baseDelay maxDelay) = fn n
        \<and> (\<forall>k. k < n \<longrightarrow> (\<exists>e. fn k = Inl e \<and> \<not> fatal_status e))
        \<and> ((\<exists>v. fn n = Inr v) \<or> (\<exists>e. fn n = Inl e \<and> (n = maxRetries \<or> fatal_status e)))"
    using len n(1) n(2) n(3) stop by (intro exI[of _ n]) simp
  show ?thesis
    using first fatal_status_iff withRetry_first_fatal by blast
qed

text \<open>Claim C5, at an HTTP 400 that is thrown at once.\<close>

theorem withRetry_retry_policy_witness:
  "withRetry (\<lambda>k. Inl (HttpError 400) :: js_error + nat) (\<lambda>k. 1 / 2) 3 2000 30000
     = (Inl (HttpError 400), [])
   \<and> fatal_status (HttpError 400) \<and> \<not> fatal_status (OtherError ''ECONNRESET'')"
  using withRetry_retry_policy[of "\<lambda>k. Inl (HttpError 400) :: js_error + nat" "\<lambda>k. 1 / 2" 3 2000 30000]
  by simp

text \<open>
  Claim C5 as stated fails: a connection error, which is no HTTP 429 or 503, is not
  thrown on the first attempt. The call sleeps 1600 ms and invokes the operation again.
\<close>

theorem withRetry_retries_connection_error:
  "withRetry (\<lambda>k. if k = 0 then Inl (OtherError ''ECONNRESET'') else (Inr 7 :: js_error + nat))
     (\<lambda>k. 0) 3 2000 30000 = (Inr 7, [1600])"
  by (simp add: withRetry_def backoff_delay_def)

lemma backoff_delay_le_max: "backoff_delay baseDelay maxDelay k r \<le> maxDelay"
  by (simp add: backoff_delay_def)

lemma backoff_delay_mono:
  assumes b: "0 \<le> baseDelay" and r: "0 \<le> r" "r < 1" and r': "0 \<le> r'" "r' < 1"
  shows "backoff_delay baseDelay maxDelay k r \<le> backoff_delay baseDelay maxDelay (Suc k) r'"
proof -
  have u: "8 / 10 + r * (4 / 10) \<le> 2 * (8 / 10 + r' * (4 / 10))"
    using r r' by simp
  have p: "0 \<le> baseDelay * 2 ^ k"
    using b by simp
  have "baseDelay * 2 ^ k * (8 / 10 + r * (4 / 10))
          \<le> baseDelay * 2 ^ k * (2 * (8 / 10 + r' * (4 / 10)))"
    using mult_left_mono[OF u p] .
  also have "\<dots> = baseDelay * 2 ^ Suc k * (8 / 10 + r' * (4 / 10))"
    by simp
  finally show ?thesis
    unfolding backoff_delay_def by (rule min.mono[OF order_refl])
qed

lemma sorted_map_upt:
  assumes "\<And>k. f k \<le> f (Suc k)"
  shows "sorted (map f [0..<n])"
proof -
  have "\<And>i j. i \<le> j \<Longrightarrow> f i \<le> f j"
    using assms by (rule lift_Suc_mono_le)
  then show ?thesis
    by (simp add: sorted_iff_nth_mono)
qed

text \<open>
  Claim C6. With a base delay that is not negative and draws of \<open>Math.random()\<close> in
  \<open>[0, 1)\<close>: the sleep before retry \<open>k\<close> is \<open>min(maxDelay, baseDelay * 2^k * u)\<close> with
  \<open>u = 0.8 + 0.4 * draw\<close> between 0.8 and 1.2; the sleeps of one call never decrease
  from one retry to the next; each is at most \<open>maxDelay\<close>; there are at most
  \<open>maxRetries\<close> of them; and when every invocation up to the cap fails, the error of the
  last invocation, number \<open>maxRetries\<close>, is the one thrown to the caller. That the draw
  is uniform is a property of \<open>Math.random\<close>, outside the code.
\<close>

theorem withRetry_backoff:
  assumes b: "0 \<le> baseDelay" and r: "\<forall>k. 0 \<le> rnd k \<and> rnd k < 1"
  shows "(\<forall>k. k < length (snd (withRetry fn rnd maxRetries baseDelay maxDelay)) \<longrightarrow>
            (\<exists>u. u = 8 / 10 + rnd k * (4 / 10) \<and> 8 / 10 \<le> u \<and> u \<le> 12 / 10
               \<and> snd (withRetry fn rnd maxRetries baseDelay maxDelay) ! k
                   = min maxDelay (baseDelay * 2 ^ k * u)))
       \<and> sorted (snd (withRetry fn rnd maxRetries baseDelay maxDelay))
       \<and> (\<forall>d. d \<in> set (snd (withRetry fn rnd maxRetries baseDelay maxDelay)) \<longrightarrow> d \<le> maxDelay)
       \<and> length (snd (withRetry fn rnd maxRetries baseDelay maxDelay)) \<le> maxRetries
       \<and> (\<forall>e. (\<forall>k. k < maxRetries \<longrightarrow> (\<exists>e'. fn k = Inl e' \<and> \<not> fatal_status e')) \<and> fn maxRetries = Inl e
             \<longrightarrow> fst (withRetry fn rnd maxRetries baseDelay maxDelay) = Inl e
               \<and> length (snd (withRetry fn rnd maxRetries baseDelay maxDelay)) = maxRetries)"
proof -
  let ?d = "\<lambda>k. backoff_delay baseDelay maxDelay k (rnd k)"
  obtain n where n: "n \<le> maxRetries"
    "withRetry fn rnd maxRetries baseDelay maxDelay = (fn n, map ?d [0..<n])"
    "\<forall>k. k < n \<longrightarrow> (\<exists>e. fn k = Inl e \<and> \<not> fatal_status e)"
    "(\<exists>v. fn n = Inr v) \<or> (\<exists>e. fn n = Inl e \<and> (maxRetries \<le> n \<or> fatal_status e))"
    using withRetry_shape[of maxRetries fn rnd baseDelay maxDelay] by blast
  have sl: "snd (withRetry fn rnd maxRetries baseDelay maxDelay) = map ?d [0..<n]"
    using n(2) by simp
  have formula: "\<forall>k. k < length (map ?d [0..<n]) \<longrightarrow>
            (\<exists>u. u = 8 / 10 + rnd k * (4 / 10) \<and> 8 / 10 \<le> u \<and> u \<le> 12 / 10
               \<and> map ?d [0..<n] ! k = min maxDelay (baseDelay * 2 ^ k * u))"
  proof (intro allI impI)
    fix k assume k: "k < length (map ?d [0..<n])"
    have "0 \<le> rnd k" "rnd k < 1" using r by auto
    then have "8 / 10 \<le> 8 / 10 + rnd k * (4 / 10)" "8 / 10 + rnd k * (4 / 10) \<le> 12 / 10"
      by simp_all
    moreover have "map ?d [0..<n] ! k = min maxDelay (baseDelay * 2 ^ k * (8 / 10 + rnd k * (4 / 10)))"
      using k by (simp add: backoff_delay_def)
    ultimately show "\<exists>u. u = 8 / 10 + rnd k * (4 / 10) \<and> 8 / 10 \<le> u \<and> u \<le> 12 / 10
               \<and> map ?d [0..<n] ! k = min maxDelay (baseDelay * 2 ^ k * u)"
      by blast
  qed
  have mono: "\<And>k. ?d k \<le> ?d (Suc k)"
    using backoff_delay_mono[OF b] r by simp
  have srt: "sorted (map ?d [0..<n])"
    using mono by (rule sorted_map_upt)
  have bnd: "\<forall>d. d \<in> set (map ?d [0..<n]) \<longrightarrow> d \<le> maxDelay"
    by (auto simp: backoff_delay_le_max)
  have cap: "\<forall>e. (\<forall>k. k < maxRetries \<longrightarrow> (\<exists>e'. fn k = Inl e' \<and> \<not> fatal_status e')) \<and> fn maxRetries = Inl e
             \<longrightarrow> fn n = Inl e \<and> length (map ?d [0..<n]) = maxRetries"
  proof (intro allI impI)
    fix e
    assume a: "(\<forall>k. k < maxRetries \<longrightarrow> (\<exists>e'. fn k = Inl e' \<and> \<not> fatal_status e')) \<and> fn maxRetries = Inl e"
    have "n = maxRetries"
    proof (rule ccontr)
      assume "n \<noteq> maxRetries"
      with n(1) have lt: "n < maxRetries" by simp
      with a obtain e' where "fn n = Inl e'" "\<not> fatal_status e'" by blast
      with n(4) lt show False by auto
    qed
    with a show "fn n = Inl e \<and> length (map ?d [0..<n]) = maxRetries"
      by simp
  qed
  have fe: "fst (withRetry fn rnd maxRetries baseDelay maxDelay) = fn n"
    using n(2) by simp
  have len: "length (map ?d [0..<n]) \<le> maxRetries"
    using n(1) by simp
  show ?thesis
    unfolding sl fe by (intro conjI formula srt bnd len cap)
qed

text \<open>Claim C6, at six HTTP 429 failures against a cap of five retries.\<close>

theorem withRetry_backoff_witness:
  "(0::rat) \<le> 5000 \<and> (\<forall>k::nat. (0::rat) \<le> 1 / 2 \<and> (1 / 2 :: rat) < 1)
   \<and> sorted (snd (withRetry (\<lambda>k. Inl (HttpError 429) :: js_error + nat) (\<lambda>k. 1 / 2) 5 5000 60000))
   \<and> fst (withRetry (\<lambda>k. Inl (HttpError 429) :: js_error + nat) (\<lambda>k. 1 / 2) 5 5000 60000)
       = Inl (HttpError 429)
   \<and> length (snd (withRetry (\<lambda>k. Inl (HttpError 429) :: js_error + nat) (\<lambda>k. 1 / 2) 5 5000 60000)) = 5"
proof -
  have b: "(0::rat) \<le> 5000" by simp
  have r: "\<forall>k::nat. (0::rat) \<le> (\<lambda>k. 1 / 2) k \<and> (\<lambda>k. 1 / 2 :: rat) k < 1" by simp
  show ?thesis
    using withRetry_backoff[OF b r, of "\<lambda>k. Inl (HttpError 429) :: js_error + nat" 5 60000]
    by simp
qed

section \<open>Properties of checkCredit and checkWalletCredit\<close>

lemma withRetry_fails_at_cap:
  assumes "\<forall>k. k \<le> maxRetries \<longrightarrow> (\<exists>e. fn k = Inl e)"
  shows "\<exists>e. fst (withRetry fn rnd maxRetries baseDelay maxDelay) = Inl e"
proof -
  obtain n where n: "n \<le> maxRetries"
    "withRetry fn rnd maxRetries baseDelay maxDelay
       = (fn n, map (\<lambda>k. backoff_delay baseDelay maxDelay k (rnd k)) [0..<n])"
    using withRetry_shape[of maxRetries fn rnd baseDelay maxDelay] by blast
  from assms n(1) obtain e where "fn n = Inl e" by blast
  with n(2) show ?thesis by simp
qed

text \<open>
  Claim C2, as the code has it. \<open>checkCredit\<close> throws nothing (its result is a value in
  every case). When the request fails, that is when \<open>withRetry\<close> throws, and so when
  six requests in a row fail against the cap of five retries, it returns the default
  object, with \<open>credits\<close> "0" and \<open>free_credits\<close> "480.0000". When the request
  returns a truthy body it returns an object: the body itself when the body has at
  least one of the two balance properties, and for a body with neither the two
  defaults with the body's own properties spread over them. When the request returns a
  falsy body (an empty reply, \<open>null\<close>), it returns that body and no object.
\<close>

theorem checkCredit_returns:
  "(\<forall>e. fst (withRetry get rnd 5 5000 60000) = Inl e
        \<longrightarrow> checkCredit get rnd now = BObj (default_credit now))
   \<and> ((\<forall>k. k \<le> 5 \<longrightarrow> (\<exists>e. get k = Inl e))
        \<longrightarrow> checkCredit get rnd now = BObj (default_credit now))
   \<and> default_credit now ''credits'' = Some (JString ''0'')
   \<and> default_credit now ''free_credits'' = Some (JString ''480.0000'')
   \<and> (\<forall>m. fst (withRetry get rnd 5 5000 60000) = Inr (BObj m)
        \<longrightarrow> (\<exists>m'. checkCredit get rnd now = BObj m'))
   \<and> (\<forall>m. fst (withRetry get rnd 5 5000 60000) = Inr (BObj m)
            \<and> (m ''credits'' = None \<and> m ''free_credits'' = None)
        \<longrightarrow> checkCredit get rnd now
              = BObj (m(''credits'' \<mapsto> JString ''0'', ''free_credits'' \<mapsto> JString ''480.0000'')))
   \<and> (\<forall>b. fst (withRetry get rnd 5 5000 60000) = Inr b \<and> \<not> body_truthy b
        \<longrightarrow> checkCredit get rnd now = b)
   \<and> (\<forall>m. fst (withRetry get rnd 5 5000 60000) = Inr (BObj m)
            \<and> (body_field (BObj m) ''credits'' \<noteq> JUndefined
                 \<or> body_field (BObj m) ''free_credits'' \<noteq> JUndefined)
        \<longrightarrow> checkCredit get rnd now = BObj m)
   \<and> (\<forall>m. fst (withRetry get rnd 5 5000 60000) = Inr (BObj m)
            \<and> body_field (BObj m) ''credits'' = JUndefined
            \<and> body_field (BObj m) ''free_credits'' = JUndefined
        \<longrightarrow> checkCredit get rnd now
              = BObj ([''credits'' \<mapsto> JString ''0'', ''free_credits'' \<mapsto> JString ''480.0000''] ++ m))"
proof -
  have a: "\<forall>e. fst (withRetry get rnd 5 5000 60000) = Inl e
        \<longrightarrow> checkCredit get rnd now = BObj (default_credit now)"
    by (simp add: checkCredit_def)
  have b: "(\<forall>k. k \<le> 5 \<longrightarrow> (\<exists>e. get k = Inl e))
        \<longrightarrow> checkCredit get rnd now = BObj (default_credit now)"
    using withRetry_fails_at_cap[of 5 get rnd 5000 60000] a by blast
  have c: "default_credit now ''credits'' = Some (JString ''0'')"
    by (simp add: default_credit_def)
  have d: "default_credit now ''free_credits'' = Some (JString ''480.0000'')"
    by (simp add: default_credit_def)
  have e: "\<forall>m. fst (withRetry get rnd 5 5000 60000) = Inr (BObj m)
        \<longrightarrow> (\<exists>m'. checkCredit get rnd now = BObj m')"
    by (simp add: checkCredit_def)
  have f: "\<forall>m. fst (withRetry get rnd 5 5000 60000) = Inr (BObj m)
            \<and> (m ''credits'' = None \<and> m ''free_credits'' = None)
        \<longrightarrow> checkCredit get rnd now
              = BObj (m(''credits'' \<mapsto> JString ''0'', ''free_credits'' \<mapsto> JString ''480.0000''))"
  proof (intro allI impI)
    fix m
    assume h: "fst (withRetry get rnd 5 5000 60000) = Inr (BObj m)
            \<and> (m ''credits'' = None \<and> m ''free_credits'' = None)"
    have "[''credits'' \<mapsto> JString ''0'', ''free_credits'' \<mapsto> JString ''480.0000''] ++ m
           = m(''credits'' \<mapsto> JString ''0'', ''free_credits'' \<mapsto> JString ''480.0000'')"
      using h by (auto simp: map_add_def fun_eq_iff split: option.splits)
    then show "checkCredit get rnd now
              = BObj (m(''credits'' \<mapsto> JString ''0'', ''free_credits'' \<mapsto> JString ''480.0000''))"
      using h by (simp add: checkCredit_def js_or_def)
  qed
  have g: "\<forall>b. fst (withRetry get rnd 5 5000 60000) = Inr b \<and> \<not> body_truthy b
        \<longrightarrow> checkCredit get rnd now = b"
    by (simp add: checkCredit_def)
  have h: "\<forall>m. fst (withRetry get rnd 5 5000 60000) = Inr (BObj m)
            \<and> (body_field (BObj m) ''credits'' \<noteq> JUndefined
                 \<or> body_field (BObj m) ''free_credits'' \<noteq> JUndefined)
        \<longrightarrow> checkCredit get rnd now = BObj m"
  proof (intro allI impI)
    fix m
    assume p: "fst (withRetry get rnd 5 5000 60000) = Inr (BObj m)
            \<and> (body_field (BObj m) ''credits'' \<noteq> JUndefined
                 \<or> body_field (BObj m) ''free_credits'' \<noteq> JUndefined)"
    then have w: "fst (withRetry get rnd 5 5000 60000) = Inr (BObj m)" by simp
    from p have n: "\<not> (body_field (BObj m) ''credits'' = JUndefined
                        \<and> body_field (BObj m) ''free_credits'' = JUndefined)"
      by blast
    from n have ff: "(body_field (BObj m) ''credits'' = JUndefined
                        \<and> body_field (BObj m) ''free_credits'' = JUndefined) = False"
      by blast
    have "checkCredit get rnd now
            = (if \<not> body_truthy (BObj m)
                  \<or> (body_field (BObj m) ''credits'' = JUndefined
                      \<and> body_field (BObj m) ''free_credits'' = JUndefined)
               then (if body_truthy (BObj m)
                     then BObj ([''credits'' \<mapsto> js_or (body_field (BObj m) ''credits'') (JString ''0''),
                                 ''free_credits'' \<mapsto> js_or (body_field (BObj m) ''free_credits'')
                                                       (JString ''480.0000'')]
                                ++ spread (BObj m))
                     else BObj m)
               else BObj m)"
      unfolding checkCredit_def w by (simp only: sum.case)
    also have "\<dots> = BObj m"
      unfolding ff by (simp only: body_truthy.simps not_True_eq_False simp_thms if_False)
    finally show "checkCredit get rnd now = BObj m" .
  qed
  have i: "\<forall>m. fst (withRetry get rnd 5 5000 60000) = Inr (BObj m)
            \<and> body_field (BObj m) ''credits'' = JUndefined
            \<and> body_field (BObj m) ''free_credits'' = JUndefined
        \<longrightarrow> checkCredit get rnd now
              = BObj ([''credits'' \<mapsto> JString ''0'', ''free_credits'' \<mapsto> JString ''480.0000''] ++ m)"
  proof (intro allI impI)
    fix m
    assume p: "fst (withRetry get rnd 5 5000 60000) = Inr (BObj m)
            \<and> body_field (BObj m) ''credits'' = JUndefined
            \<and> body_field (BObj m) ''free_credits'' = JUndefined"
    then have w: "fst (withRetry get rnd 5 5000 60000) = Inr (BObj m)" by simp
    from p have u1: "body_field (BObj m) ''credits'' = JUndefined" by simp
    from p have u2: "body_field (BObj m) ''free_credits'' = JUndefined" by simp
    show "checkCredit get rnd now
              = BObj ([''credits'' \<mapsto> JString ''0'', ''free_credits'' \<mapsto> JString ''480.0000''] ++ m)"
      unfolding checkCredit_def w using u1 u2 by (simp add: js_or_def)
  qed
  show ?thesis
    by (intro conjI a b c d e f g h i)
qed

text \<open>
  Claim C2, at a request that fails with HTTP 503 every time, and at a request whose
  reply has \<open>credits\<close> "5" only.
\<close>

theorem checkCredit_returns_witness:
  "(\<forall>k::nat. \<exists>e. (Inl (HttpError 503) :: js_error + body) = Inl e)
   \<and> checkCredit (\<lambda>k. Inl (HttpError 503)) (\<lambda>k. 1 / 2) ''2025-01-01T00:00:00.000Z''
       = BObj [''credits'' \<mapsto> JString ''0'', ''free_credits'' \<mapsto> JString ''480.0000'',
               ''expense_at'' \<mapsto> JString ''2025-01-01T00:00:00.000Z'',
               ''income_at'' \<mapsto> JString ''2025-01-01T00:00:00.000Z'']
   \<and> fst (withRetry (\<lambda>k. Inr (BObj [''credits'' \<mapsto> JString ''5''])) (\<lambda>k. 1 / 2) 5 5000 60000)
       = Inr (BObj [''credits'' \<mapsto> JString ''5''])
   \<and> body_field (BObj [''credits'' \<mapsto> JString ''5'']) ''credits'' \<noteq> JUndefined
   \<and> checkCredit (\<lambda>k. Inr (BObj [''credits'' \<mapsto> JString ''5''])) (\<lambda>k. 1 / 2)
         ''2025-01-01T00:00:00.000Z''
       = BObj [''credits'' \<mapsto> JString ''5'']"
proof -
  have f: "\<forall>k::nat. \<exists>e. (Inl (HttpError 503) :: js_error + body) = Inl e" by simp
  have d: "checkCredit (\<lambda>k. Inl (HttpError 503)) (\<lambda>k. 1 / 2) ''2025-01-01T00:00:00.000Z''
       = BObj [''credits'' \<mapsto> JString ''0'', ''free_credits'' \<mapsto> JString ''480.0000'',
               ''expense_at'' \<mapsto> JString ''2025-01-01T00:00:00.000Z'',
               ''income_at'' \<mapsto> JString ''2025-01-01T00:00:00.000Z'']"
    using checkCredit_returns[of "\<lambda>k. Inl (HttpError 503)" "\<lambda>k. 1 / 2" "''2025-01-01T00:00:00.000Z''"]
    by (simp add: default_credit_def)
  have w: "fst (withRetry (\<lambda>k. Inr (BObj [''credits'' \<mapsto> JString ''5''])) (\<lambda>k. 1 / 2) 5 5000 60000)
       = Inr (BObj [''credits'' \<mapsto> JString ''5''])"
    by (simp add: withRetry_def)
  have u: "body_field (BObj [''credits'' \<mapsto> JString ''5'']) ''credits'' \<noteq> JUndefined"
    by simp
  have b: "checkCredit (\<lambda>k. Inr (BObj [''credits'' \<mapsto> JString ''5''])) (\<lambda>k. 1 / 2)
         ''2025-01-01T00:00:00.000Z''
       = BObj [''credits'' \<mapsto> JString ''5'']"
    using checkCredit_returns[of "\<lambda>k. Inr (BObj [''credits'' \<mapsto> JString ''5''])" "\<lambda>k. 1 / 2"
        "''2025-01-01T00:00:00.000Z''"] w u
    by blast
  show ?thesis
    by (intro conjI f d w u b)
qed

text \<open>
  Claim C2 as stated fails: on a reply whose body is \<open>null\<close> the result is \<open>null\<close>,
  not a snapshot.
\<close>

theorem checkCredit_empty_body:
  "checkCredit (\<lambda>k. Inr BNull) (\<lambda>k. 0) ''2025-01-01T00:00:00.000Z'' = BNull"
  by (simp add: checkCredit_def withRetry_def)




section \<open>Properties of initWallet\<close>

text \<open>
  Claim C9. For a key that does not start with "0x", \<open>initWallet\<close> returns what it
  returns for the key with "0x" put in front, so the same address. When the library
  rejects the key (the constructor throws on the key as prefixed), the result is \<open>null\<close>
  and nothing is thrown; when it accepts, the result holds the derived address and the
  prefixed key.
\<close>

theorem initWallet_prefix:
  "(take 2 key \<noteq> ''0x'' \<longrightarrow> initWallet newWallet key = initWallet newWallet (''0x'' @ key))
   \<and> (\<forall>e. newWallet (if take 2 key = ''0x'' then key else ''0x'' @ key) = Inl e
          \<longrightarrow> initWallet newWallet key = None)
   \<and> (\<forall>a. newWallet (if take 2 key = ''0x'' then key else ''0x'' @ key) = Inr a
          \<longrightarrow> initWallet newWallet key
              = Some \<lparr>address = a, privateKey = (if take 2 key = ''0x'' then key else ''0x'' @ key)\<rparr>)"
  by (auto simp: initWallet_def Let_def)

text \<open>
  Claim C9, at the key "ab" with a library that accepts only "0xab", and at the key
  "zz" that it rejects.
\<close>

theorem initWallet_prefix_witness:
  "take 2 ''ab'' \<noteq> ''0x''
   \<and> initWallet (\<lambda>k. if k = ''0xab'' then Inr ''0xA1'' else Inl (OtherError ''invalid private key'')) ''ab''
       = initWallet (\<lambda>k. if k = ''0xab'' then Inr ''0xA1'' else Inl (OtherError ''invalid private key'')) ''0xab''
   \<and> initWallet (\<lambda>k. if k = ''0xab'' then Inr ''0xA1'' else Inl (OtherError ''invalid private key'')) ''ab''
       = Some \<lparr>address = ''0xA1'', privateKey = ''0xab''\<rparr>
   \<and> initWallet (\<lambda>k. if k = ''0xab'' then Inr ''0xA1'' else Inl (OtherError ''invalid private key'')) ''zz''
       = None"
  using initWallet_prefix[of "''ab''" "\<lambda>k. if k = ''0xab'' then Inr ''0xA1'' else Inl (OtherError ''invalid private key'')"]
    initWallet_prefix[of "''zz''" "\<lambda>k. if k = ''0xab'' then Inr ''0xA1'' else Inl (OtherError ''invalid private key'')"]
  by (simp add: initWallet_def Let_def)

section \<open>Properties of getWorkingProxy\<close>

lemma getWorkingProxy_loop_stop:
  "\<not> i < min 5 (length shuffled) \<Longrightarrow> getWorkingProxy_loop isProxyWorking shuffled i = None"
  by (subst getWorkingProxy_loop.simps) (simp only: if_False)

lemma getWorkingProxy_loop_hit:
  "i < min 5 (length shuffled) \<Longrightarrow> isProxyWorking i (shuffled ! i)
     \<Longrightarrow> getWorkingProxy_loop isProxyWorking shuffled i = Some (shuffled ! i)"
  by (subst getWorkingProxy_loop.simps) (simp only: if_True)

lemma getWorkingProxy_loop_miss:
  "i < min 5 (length shuffled) \<Longrightarrow> \<not> isProxyWorking i (shuffled ! i)
     \<Longrightarrow> getWorkingProxy_loop isProxyWorking shuffled i
         = getWorkingProxy_loop isProxyWorking shuffled (i + 1)"
  by (subst getWorkingProxy_loop.simps) (simp only: if_True if_False)

lemma getWorkingProxy_loop_None:
  "getWorkingProxy_loop isProxyWorking shuffled i = None
     \<longleftrightarrow> (\<forall>k. i \<le> k \<and> k < min 5 (length shuffled) \<longrightarrow> \<not> isProxyWorking k (shuffled ! k))"
proof (induction isProxyWorking shuffled i rule: getWorkingProxy_loop.induct)
  case (1 isProxyWorking shuffled i)
  show ?case
  proof (cases "i < min 5 (length shuffled)")
    case False
    then have "\<forall>k. i \<le> k \<and> k < min 5 (length shuffled) \<longrightarrow> \<not> isProxyWorking k (shuffled ! k)"
      by auto
    with getWorkingProxy_loop_stop[OF False] show ?thesis by simp
  next
    case True
    show ?thesis
    proof (cases "isProxyWorking i (shuffled ! i)")
      case w: True
      have "\<not> (\<forall>k. i \<le> k \<and> k < min 5 (length shuffled) \<longrightarrow> \<not> isProxyWorking k (shuffled ! k))"
        using True w by blast
      with getWorkingProxy_loop_hit[where isProxyWorking=isProxyWorking, OF True w] show ?thesis by simp
    next
      case w: False
      have "(\<forall>k. i \<le> k \<and> k < min 5 (length shuffled) \<longrightarrow> \<not> isProxyWorking k (shuffled ! k))
              \<longleftrightarrow> (\<forall>k. i + 1 \<le> k \<and> k < min 5 (length shuffled) \<longrightarrow> \<not> isProxyWorking k (shuffled ! k))"
      proof
        assume "\<forall>k. i \<le> k \<and> k < min 5 (length shuffled) \<longrightarrow> \<not> isProxyWorking k (shuffled ! k)"
        then show "\<forall>k. i + 1 \<le> k \<and> k < min 5 (length shuffled) \<longrightarrow> \<not> isProxyWorking k (shuffled ! k)"
          by simp
      next
        assume a: "\<forall>k. i + 1 \<le> k \<and> k < min 5 (length shuffled) \<longrightarrow> \<not> isProxyWorking k (shuffled ! k)"
        show "\<forall>k. i \<le> k \<and> k < min 5 (length shuffled) \<longrightarrow> \<not> isProxyWorking k (shuffled ! k)"
        proof (intro allI impI)
          fix k assume k: "i \<le> k \<and> k < min 5 (length shuffled)"
          show "\<not> isProxyWorking k (shuffled ! k)"
          proof (cases "k = i")
            case True
            with w show ?thesis by simp
          next
            case False
            with k have "i + 1 \<le> k \<and> k < min 5 (length shuffled)" by simp
            with a show ?thesis by blast
          qed
        qed
      qed
      with "1.IH"[OF True w] getWorkingProxy_loop_miss[where isProxyWorking=isProxyWorking, OF True w] show ?thesis
        by simp
    qed
  qed
qed

lemma getWorkingProxy_loop_Some:
  "getWorkingProxy_loop isProxyWorking shuffled i = Some p
     \<Longrightarrow> \<exists>k. i \<le> k \<and> k < min 5 (length shuffled) \<and> p = shuffled ! k \<and> isProxyWorking k p"
proof (induction isProxyWorking shuffled i rule: getWorkingProxy_loop.induct)
  case (1 isProxyWorking shuffled i)
  show ?case
  proof (cases "i < min 5 (length shuffled)")
    case False
    with "1.prems" getWorkingProxy_loop_stop[OF False] show ?thesis by simp
  next
    case True
    show ?thesis
    proof (cases "isProxyWorking i (shuffled ! i)")
      case w: True
      with "1.prems" getWorkingProxy_loop_hit[where isProxyWorking=isProxyWorking, OF True w] have "p = shuffled ! i" by simp
      with True w show ?thesis by (intro exI[of _ i]) simp
    next
      case w: False
      with "1.prems" getWorkingProxy_loop_miss[where isProxyWorking=isProxyWorking, OF True w]
      have "getWorkingProxy_loop isProxyWorking shuffled (i + 1) = Some p"
        by simp
      from "1.IH"[OF True w this] obtain k where
        "i + 1 \<le> k \<and> k < min 5 (length shuffled) \<and> p = shuffled ! k \<and> isProxyWorking k p"
        by blast
      then show ?thesis by (intro exI[of _ k]) auto
    qed
  qed
qed

text \<open>
  Claim C10, for a shuffle that keeps the length of the pool. \<open>getWorkingProxy\<close>
  returns \<open>null\<close> exactly when the pool is missing or empty. On a pool that is not
  empty, when none of the first \<open>min(5, length)\<close> proxies of the shuffled pool passes
  its health check, the result is the first proxy of the shuffled pool, a proxy whose
  check has just failed; and any other result is one of those first proxies, whose
  check passed.
\<close>

theorem getWorkingProxy_null_only_when_empty:
  assumes len: "\<forall>ps. length (shuffle ps) = length ps"
  shows "(getWorkingProxy shuffle isProxyWorking proxies = None
            \<longleftrightarrow> proxies = None \<or> proxies = Some [])
       \<and> (\<forall>ps. proxies = Some ps \<and> ps \<noteq> []
                 \<and> (\<forall>i. i < min 5 (length ps) \<longrightarrow> \<not> isProxyWorking i (shuffle ps ! i))
             \<longrightarrow> getWorkingProxy shuffle isProxyWorking proxies = Some (shuffle ps ! 0)
                 \<and> \<not> isProxyWorking 0 (shuffle ps ! 0))
       \<and> (\<forall>ps p. proxies = Some ps \<and> getWorkingProxy shuffle isProxyWorking proxies = Some p
                 \<and> (\<exists>i. i < min 5 (length ps) \<and> isProxyWorking i (shuffle ps ! i))
             \<longrightarrow> (\<exists>k. k < min 5 (length ps) \<and> p = shuffle ps ! k \<and> isProxyWorking k p))"
proof (cases proxies)
  case None
  then show ?thesis by (simp add: getWorkingProxy_def)
next
  case (Some ps)
  show ?thesis
  proof (cases "ps = []")
    case True
    with Some show ?thesis by (simp add: getWorkingProxy_def)
  next
    case False
    have ne: "shuffle ps \<noteq> []" using len False by (metis length_0_conv)
    have l: "length (shuffle ps) = length ps" using len by simp
    have a: "getWorkingProxy shuffle isProxyWorking proxies \<noteq> None"
      using Some False ne
      by (auto simp: getWorkingProxy_def Let_def split: option.splits)
    have b: "(\<forall>i. i < min 5 (length ps) \<longrightarrow> \<not> isProxyWorking i (shuffle ps ! i))
             \<longrightarrow> getWorkingProxy shuffle isProxyWorking proxies = Some (shuffle ps ! 0)
                 \<and> \<not> isProxyWorking 0 (shuffle ps ! 0)"
    proof
      assume h: "\<forall>i. i < min 5 (length ps) \<longrightarrow> \<not> isProxyWorking i (shuffle ps ! i)"
      then have "getWorkingProxy_loop isProxyWorking (shuffle ps) 0 = None"
        using l by (simp add: getWorkingProxy_loop_None)
      then have "getWorkingProxy shuffle isProxyWorking proxies = Some (shuffle ps ! 0)"
        using Some False ne by (simp add: getWorkingProxy_def Let_def)
      moreover have "\<not> isProxyWorking 0 (shuffle ps ! 0)"
        using h False by simp
      ultimately show "getWorkingProxy shuffle isProxyWorking proxies = Some (shuffle ps ! 0)
                 \<and> \<not> isProxyWorking 0 (shuffle ps ! 0)"
        by simp
    qed
    have c: "\<forall>p. getWorkingProxy shuffle isProxyWorking proxies = Some p
                 \<and> (\<exists>i. i < min 5 (length ps) \<and> isProxyWorking i (shuffle ps ! i))
             \<longrightarrow> (\<exists>k. k < min 5 (length ps) \<and> p = shuffle ps ! k \<and> isProxyWorking k p)"
    proof (intro allI impI)
      fix p
      assume h: "getWorkingProxy shuffle isProxyWorking proxies = Some p
                 \<and> (\<exists>i. i < min 5 (length ps) \<and> isProxyWorking i (shuffle ps ! i))"
      then have "getWorkingProxy_loop isProxyWorking (shuffle ps) 0 \<noteq> None"
        using l by (simp add: getWorkingProxy_loop_None)
      then obtain q where q: "getWorkingProxy_loop isProxyWorking (shuffle ps) 0 = Some q"
        by blast
      then have "getWorkingProxy shuffle isProxyWorking proxies = Some q"
        using Some False by (simp add: getWorkingProxy_def Let_def)
      with h have "q = p" by simp
      with getWorkingProxy_loop_Some[OF q] l
      show "\<exists>k. k < min 5 (length ps) \<and> p = shuffle ps ! k \<and> isProxyWorking k p"
        by auto
    qed
    show ?thesis
      using Some False a b c by simp
  qed
qed

text \<open>
  Claim C10, at a pool of two proxies, shuffled by reversal, whose health checks all
  fail.
\<close>

theorem getWorkingProxy_null_only_when_empty_witness:
  "(\<forall>ps :: string list. length (rev ps) = length ps)
   \<and> getWorkingProxy rev (\<lambda>i p. False) (Some [''http://a:1'', ''http://b:2'']) = Some ''http://b:2''
   \<and> getWorkingProxy rev (\<lambda>i p. False) (Some ([] :: string list)) = None"
proof -
  have len: "\<forall>ps :: string list. length (rev ps) = length ps" by simp
  show ?thesis
    using getWorkingProxy_null_only_when_empty[OF len, of "\<lambda>i p. False" "Some [''http://a:1'', ''http://b:2'']"]
      getWorkingProxy_null_only_when_empty[OF len, of "\<lambda>i p. False" "Some []"]
    by (simp add: getWorkingProxy_def)
qed

section \<open>Properties of the prompt selection\<close>

lemma random_index_bounds:
  assumes "0 \<le> r" "r < 1" "0 < n"
  shows "0 \<le> random_index r n \<and> random_index r n < int n"
proof -
  have "0 \<le> r * of_nat n" using assms by simp
  then have lo: "0 \<le> \<lfloor>r * of_nat n\<rfloor>" by simp
  have "r * of_nat n < 1 * of_nat n"
    using assms by (intro mult_strict_right_mono) simp_all
  then have "r * of_nat n < of_int (int n)" by simp
  then have hi: "\<lfloor>r * of_nat n\<rfloor> < int n" by (simp only: floor_less_iff)
  from lo hi show ?thesis by (simp add: random_index_def)
qed

lemma pick_prompt_again:
  "random_index (rnd pos) len \<in> used \<Longrightarrow> attempts0 + 1 \<le> len
     \<Longrightarrow> pick_prompt rnd len init attempts0 used pos
         = pick_prompt rnd len init (attempts0 + 1) used (pos + 1)"
  by (subst pick_prompt.simps) (simp add: Let_def)

lemma pick_prompt_fresh:
  "random_index (rnd pos) len \<notin> used \<Longrightarrow> attempts0 + 1 \<le> len
     \<Longrightarrow> pick_prompt rnd len init attempts0 used pos
         = (random_index (rnd pos) len, attempts0 + 1, used, pos + 1)"
  by (subst pick_prompt.simps) (simp add: Let_def)

lemma pick_prompt_reset:
  "len < attempts0 + 1
     \<Longrightarrow> pick_prompt rnd len init attempts0 used pos
         = (random_index (rnd pos) len, attempts0 + 1, {init}, pos + 1)"
  by (subst pick_prompt.simps) (simp add: Let_def)

lemma pick_prompt_shape:
  "attempts0 \<le> len \<Longrightarrow>
     \<exists>a. attempts0 < a \<and> a \<le> len + 1
        \<and> pick_prompt rnd len init attempts0 used pos
            = (random_index (rnd (pos + (a - attempts0) - 1)) len, a,
               (if len < a then {init} else used), pos + (a - attempts0))
        \<and> (\<forall>k. k < a - attempts0 - 1 \<longrightarrow> random_index (rnd (pos + k)) len \<in> used)
        \<and> (a \<le> len \<longrightarrow> random_index (rnd (pos + (a - attempts0) - 1)) len \<notin> used)"
proof (induction "len - attempts0" arbitrary: attempts0 pos)
  case 0
  then have "len < attempts0 + 1" by simp
  from pick_prompt_reset[OF this, of rnd init used pos] 0 show ?case
    by (intro exI[of _ "attempts0 + 1"]) simp
next
  case (Suc n)
  then have lt: "attempts0 + 1 \<le> len" by simp
  show ?case
  proof (cases "random_index (rnd pos) len \<in> used")
    case False
    from pick_prompt_fresh[where rnd=rnd and pos=pos and init=init, OF False lt] lt False show ?thesis
      by (intro exI[of _ "attempts0 + 1"]) simp
  next
    case True
    have n: "n = len - (attempts0 + 1)" using Suc(2) by simp
    from Suc(1)[OF n lt, of "pos + 1"] obtain a where a:
      "attempts0 + 1 < a" "a \<le> len + 1"
      "pick_prompt rnd len init (attempts0 + 1) used (pos + 1)
         = (random_index (rnd (pos + 1 + (a - (attempts0 + 1)) - 1)) len, a,
            (if len < a then {init} else used), pos + 1 + (a - (attempts0 + 1)))"
      "\<forall>k. k < a - (attempts0 + 1) - 1 \<longrightarrow> random_index (rnd (pos + 1 + k)) len \<in> used"
      "a \<le> len \<longrightarrow> random_index (rnd (pos + 1 + (a - (attempts0 + 1)) - 1)) len \<notin> used"
      by blast
    have e1: "pos + 1 + (a - (attempts0 + 1)) = pos + (a - attempts0)"
      using a(1) by simp
    have p: "pick_prompt rnd len init attempts0 used pos
            = (random_index (rnd (pos + (a - attempts0) - 1)) len, a,
               (if len < a then {init} else used), pos + (a - attempts0))"
      using pick_prompt_again[where rnd=rnd and pos=pos and init=init, OF True lt] a(3) e1 by simp
    have q: "\<forall>k. k < a - attempts0 - 1 \<longrightarrow> random_index (rnd (pos + k)) len \<in> used"
    proof (intro allI impI)
      fix k assume k: "k < a - attempts0 - 1"
      show "random_index (rnd (pos + k)) len \<in> used"
      proof (cases k)
        case 0
        with True show ?thesis by simp
      next
        case (Suc k')
        with k have "k' < a - (attempts0 + 1) - 1" by simp
        with a(4) have "random_index (rnd (pos + 1 + k')) len \<in> used" by blast
        with Suc show ?thesis by simp
      qed
    qed
    have r: "a \<le> len \<longrightarrow> random_index (rnd (pos + (a - attempts0) - 1)) len \<notin> used"
      using a(5) e1 by simp
    from a(1) a(2) p q r show ?thesis
      by (intro exI[of _ a]) simp
  qed
qed

lemma pick_prompt_from_zero:
  "\<exists>a. 1 \<le> a \<and> a \<le> len + 1
      \<and> pick_prompt rnd len init 0 used pos
          = (random_index (rnd (pos + a - 1)) len, a, (if len < a then {init} else used), pos + a)
      \<and> (len < a \<longleftrightarrow> (\<forall>k. k < len \<longrightarrow> random_index (rnd (pos + k)) len \<in> used))
      \<and> (a \<le> len \<longrightarrow> random_index (rnd (pos + a - 1)) len \<notin> used)"
proof -
  obtain a where a: "0 < a" "a \<le> len + 1"
    "pick_prompt rnd len init 0 used pos
       = (random_index (rnd (pos + (a - 0) - 1)) len, a, (if len < a then {init} else used), pos + (a - 0))"
    "\<forall>k. k < a - 0 - 1 \<longrightarrow> random_index (rnd (pos + k)) len \<in> used"
    "a \<le> len \<longrightarrow> random_index (rnd (pos + (a - 0) - 1)) len \<notin> used"
    using pick_prompt_shape[of 0 len rnd init used pos] by auto
  have iff: "len < a \<longleftrightarrow> (\<forall>k. k < len \<longrightarrow> random_index (rnd (pos + k)) len \<in> used)"
  proof
    assume "len < a"
    with a(2) have "a - 0 - 1 = len" by simp
    with a(4) show "\<forall>k. k < len \<longrightarrow> random_index (rnd (pos + k)) len \<in> used" by simp
  next
    assume h: "\<forall>k. k < len \<longrightarrow> random_index (rnd (pos + k)) len \<in> used"
    show "len < a"
    proof (rule ccontr)
      assume "\<not> len < a"
      then have le: "a \<le> len" by simp
      with a(1) have "a - 1 < len" by simp
      with h have "random_index (rnd (pos + (a - 1))) len \<in> used" by blast
      moreover have "pos + (a - 1) = pos + (a - 0) - 1" using a(1) by simp
      ultimately show False using a(5) le by simp
    qed
  qed
  from a iff show ?thesis
    by (intro exI[of _ a]) simp
qed

lemma chat_pass_shape:
  "\<exists>a. 1 \<le> a \<and> a \<le> length chatPrompts + 1
     \<and> usedPromptIndices (chat_pass w chatPrompts init st)
         = insert (random_index (rnd_prompt w (draws st + a - 1)) (length chatPrompts))
             (if length chatPrompts < a then {init} else usedPromptIndices st)
     \<and> draws (chat_pass w chatPrompts init st) = draws st + a
     \<and> chosen (chat_pass w chatPrompts init st)
         = chosen st @ [random_index (rnd_prompt w (draws st + a - 1)) (length chatPrompts)]
     \<and> sent (chat_pass w chatPrompts init st)
         = sent st @ [at_index chatPrompts
                        (random_index (rnd_prompt w (draws st + a - 1)) (length chatPrompts))]
     \<and> skipped (chat_pass w chatPrompts init st)
         = skipped st
           + (if no_response (sendChatMessage (post w (length (sent st))) (jitter w (length (sent st))))
              then 1 else 0)
     \<and> received (chat_pass w chatPrompts init st)
         = received st
           + (if no_response (sendChatMessage (post w (length (sent st))) (jitter w (length (sent st))))
              then 0 else 1)"
proof -
  obtain a where a: "1 \<le> a" "a \<le> length chatPrompts + 1"
    "pick_prompt (rnd_prompt w) (length chatPrompts) init 0 (usedPromptIndices st) (draws st)
       = (random_index (rnd_prompt w (draws st + a - 1)) (length chatPrompts), a,
          (if length chatPrompts < a then {init} else usedPromptIndices st), draws st + a)"
    using pick_prompt_from_zero[of "length chatPrompts" "rnd_prompt w" init "usedPromptIndices st" "draws st"]
    by blast
  show ?thesis
  proof (cases "no_response (sendChatMessage (post w (length (sent st))) (jitter w (length (sent st))))")
    case True
    with a(1) a(2) show ?thesis
      by (intro exI[of _ a]) (simp add: chat_pass_def a(3) Let_def)
  next
    case False
    with a(1) a(2) show ?thesis
      by (intro exI[of _ a]) (simp add: chat_pass_def a(3) Let_def)
  qed
qed

lemma chat_pass_counts:
  "length (sent (chat_pass w chatPrompts init st)) = length (sent st) + 1
   \<and> skipped (chat_pass w chatPrompts init st) = skipped st
        + (if no_response (sendChatMessage (post w (length (sent st))) (jitter w (length (sent st))))
           then 1 else 0)
   \<and> received (chat_pass w chatPrompts init st) = received st
        + (if no_response (sendChatMessage (post w (length (sent st))) (jitter w (length (sent st))))
           then 0 else 1)"
proof -
  obtain a where
    "sent (chat_pass w chatPrompts init st)
         = sent st @ [at_index chatPrompts
                        (random_index (rnd_prompt w (draws st + a - 1)) (length chatPrompts))]"
    "skipped (chat_pass w chatPrompts init st)
         = skipped st
           + (if no_response (sendChatMessage (post w (length (sent st))) (jitter w (length (sent st))))
              then 1 else 0)"
    "received (chat_pass w chatPrompts init st)
         = received st
           + (if no_response (sendChatMessage (post w (length (sent st))) (jitter w (length (sent st))))
              then 0 else 1)"
    using chat_pass_shape[of chatPrompts w init st] by blast
  then show ?thesis by simp
qed

lemma chat_pass_in_bounds:
  assumes ne: "chatPrompts \<noteq> []" and r: "\<forall>k. 0 \<le> rnd_prompt w k \<and> rnd_prompt w k < 1"
    and c: "\<forall>i. i \<in> set (chosen st) \<longrightarrow> 0 \<le> i \<and> i < int (length chatPrompts)"
    and s: "None \<notin> set (sent st)"
  shows "(\<forall>i. i \<in> set (chosen (chat_pass w chatPrompts init st)) \<longrightarrow> 0 \<le> i \<and> i < int (length chatPrompts))
         \<and> None \<notin> set (sent (chat_pass w chatPrompts init st))"
proof -
  obtain a where a:
    "chosen (chat_pass w chatPrompts init st)
         = chosen st @ [random_index (rnd_prompt w (draws st + a - 1)) (length chatPrompts)]"
    "sent (chat_pass w chatPrompts init st)
         = sent st @ [at_index chatPrompts
                        (random_index (rnd_prompt w (draws st + a - 1)) (length chatPrompts))]"
    using chat_pass_shape[of chatPrompts w init st] by blast
  let ?idx = "random_index (rnd_prompt w (draws st + a - 1)) (length chatPrompts)"
  have b: "0 \<le> ?idx \<and> ?idx < int (length chatPrompts)"
    using random_index_bounds[of "rnd_prompt w (draws st + a - 1)" "length chatPrompts"] ne r by simp
  then have n: "at_index chatPrompts ?idx \<noteq> None"
    by (simp add: at_index_def)
  have "\<forall>i. i \<in> set (chosen st @ [?idx]) \<longrightarrow> 0 \<le> i \<and> i < int (length chatPrompts)"
    using b c by auto
  moreover have "None \<notin> set (sent st @ [at_index chatPrompts ?idx])"
    using n s by auto
  ultimately show ?thesis
    unfolding a by blast
qed

lemma chat_loop_in_bounds:
  "chatPrompts \<noteq> [] \<Longrightarrow> \<forall>k. 0 \<le> rnd_prompt w k \<and> rnd_prompt w k < 1
     \<Longrightarrow> \<forall>i. i \<in> set (chosen st) \<longrightarrow> 0 \<le> i \<and> i < int (length chatPrompts)
     \<Longrightarrow> None \<notin> set (sent st)
     \<Longrightarrow> (\<forall>i. i \<in> set (chosen (chat_loop w chatPrompts init promptCount n st))
              \<longrightarrow> 0 \<le> i \<and> i < int (length chatPrompts))
         \<and> None \<notin> set (sent (chat_loop w chatPrompts init promptCount n st))"
proof (induction w chatPrompts init promptCount n st rule: chat_loop.induct)
  case (1 w chatPrompts init promptCount n st)
  show ?case
  proof (cases "int n < promptCount")
    case False
    then have "chat_loop w chatPrompts init promptCount n st = st"
      by (subst chat_loop.simps) simp
    with "1.prems" show ?thesis by simp
  next
    case True
    then have u: "chat_loop w chatPrompts init promptCount n st
        = chat_loop w chatPrompts init promptCount (n + 1) (chat_pass w chatPrompts init st)"
      by (subst chat_loop.simps) simp
    have p: "(\<forall>i. i \<in> set (chosen (chat_pass w chatPrompts init st)) \<longrightarrow> 0 \<le> i \<and> i < int (length chatPrompts))
         \<and> None \<notin> set (sent (chat_pass w chatPrompts init st))"
      using chat_pass_in_bounds[OF "1.prems"] .
    from "1.IH"[OF True "1.prems"(1) "1.prems"(2)] p u show ?thesis
      by simp
  qed
qed

lemma chat_loop_counts:
  "length (sent (chat_loop w chatPrompts init promptCount n st))
     = length (sent st) + nat (promptCount - int n)
   \<and> skipped (chat_loop w chatPrompts init promptCount n st)
     = skipped st
       + length (filter (\<lambda>j. no_response (sendChatMessage (post w j) (jitter w j)))
                   [length (sent st)..<length (sent st) + nat (promptCount - int n)])
   \<and> received (chat_loop w chatPrompts init promptCount n st)
     = received st
       + length (filter (\<lambda>j. \<not> no_response (sendChatMessage (post w j) (jitter w j)))
                   [length (sent st)..<length (sent st) + nat (promptCount - int n)])"
proof (induction w chatPrompts init promptCount n st rule: chat_loop.induct)
  case (1 w chatPrompts init promptCount n st)
  show ?case
  proof (cases "int n < promptCount")
    case False
    then have "chat_loop w chatPrompts init promptCount n st = st"
      by (subst chat_loop.simps) simp
    with False show ?thesis by simp
  next
    case True
    let ?st' = "chat_pass w chatPrompts init st"
    let ?L = "length (sent st)"
    let ?m = "nat (promptCount - int (n + 1))"
    have u: "chat_loop w chatPrompts init promptCount n st
        = chat_loop w chatPrompts init promptCount (n + 1) ?st'"
      using True by (subst chat_loop.simps) simp
    have m: "nat (promptCount - int n) = Suc ?m"
      using True by simp
    have r: "[?L..<?L + Suc ?m] = ?L # [?L + 1..<?L + 1 + ?m]"
      by (simp add: upt_conv_Cons)
    have l: "length (sent ?st') = ?L + 1"
      using chat_pass_counts[of w chatPrompts init st] by simp
    have sk: "skipped ?st' = skipped st
        + (if no_response (sendChatMessage (post w ?L) (jitter w ?L)) then 1 else 0)"
      using chat_pass_counts[of w chatPrompts init st] by simp
    have rc: "received ?st' = received st
        + (if no_response (sendChatMessage (post w ?L) (jitter w ?L)) then 0 else 1)"
      using chat_pass_counts[of w chatPrompts init st] by simp
    from "1.IH"[OF True] show ?thesis
      unfolding u m r l sk rc by simp
  qed
qed

lemma startChatSession_no_agent:
  "getAgentInfo (agents_get w) (agents_jitter w) = None
     \<or> getAgentInfo (agents_get w) (agents_jitter w) = Some 0
   \<Longrightarrow> startChatSession w mn mx chatPrompts
       = (False, \<lparr>usedPromptIndices = {}, draws = 0, chosen = [], sent = [], received = 0, skipped = 0\<rparr>)"
  by (auto simp: startChatSession_def Let_def)

lemma startChatSession_initial_failed:
  "getAgentInfo (agents_get w) (agents_jitter w) = Some aid \<Longrightarrow> aid \<noteq> 0
   \<Longrightarrow> no_response (sendChatMessage (post w 0) (jitter w 0))
   \<Longrightarrow> startChatSession w mn mx chatPrompts
       = (False, \<lparr>usedPromptIndices = {random_index (rnd_initial w) (length chatPrompts)}, draws = 0,
                  chosen = [random_index (rnd_initial w) (length chatPrompts)],
                  sent = [getRandomItem chatPrompts (random_index (rnd_initial w) (length chatPrompts))
                            (rnd_item w)],
                  received = 0, skipped = 0\<rparr>)"
  by (simp add: startChatSession_def Let_def)

lemma startChatSession_runs:
  "getAgentInfo (agents_get w) (agents_jitter w) = Some aid \<Longrightarrow> aid \<noteq> 0
   \<Longrightarrow> \<not> no_response (sendChatMessage (post w 0) (jitter w 0))
   \<Longrightarrow> startChatSession w mn mx chatPrompts
       = (True, chat_loop w chatPrompts (random_index (rnd_initial w) (length chatPrompts))
                  (\<lfloor>rnd_count w * of_int (mx - mn + 1)\<rfloor> + mn - 1) 0
                  \<lparr>usedPromptIndices = {random_index (rnd_initial w) (length chatPrompts)}, draws = 0,
                   chosen = [random_index (rnd_initial w) (length chatPrompts)],
                   sent = [getRandomItem chatPrompts (random_index (rnd_initial w) (length chatPrompts))
                             (rnd_item w)],
                   received = 1, skipped = 0\<rparr>)"
  by (simp add: startChatSession_def Let_def)

lemma getRandomItem_in_range:
  "0 \<le> i \<Longrightarrow> i < int (length arr) \<Longrightarrow> getRandomItem arr i r = Some (arr ! nat i)"
  by (simp add: getRandomItem_def at_index_def)

text \<open>
  What the selection does keep, for a list of prompts that is not empty and draws of
  \<open>Math.random()\<close> in \<open>[0, 1)\<close>. Every index chosen in a session is within the list,
  so no prompt sent is \<open>undefined\<close>. A selection that starts with the used set \<open>used\<close>
  makes \<open>a\<close> draws, at least one and at most one more than there are prompts, and
  chooses the last of them. It resets the used set to the opening index alone exactly
  when it makes that one draw more, which is exactly when each of its first
  \<open>length chatPrompts\<close> draws lands on a used index, and so whenever all indices are
  used; the index it then chooses is the last draw, whatever it is.
\<close>

lemma prompt_selection:
  assumes ne: "chatPrompts \<noteq> []"
    and r0: "0 \<le> rnd_initial w \<and> rnd_initial w < 1"
    and r: "\<forall>k. 0 \<le> rnd_prompt w k \<and> rnd_prompt w k < 1"
  shows "(\<forall>i. i \<in> set (chosen (snd (startChatSession w mn mx chatPrompts)))
             \<longrightarrow> 0 \<le> i \<and> i < int (length chatPrompts))
       \<and> None \<notin> set (sent (snd (startChatSession w mn mx chatPrompts)))
       \<and> (\<exists>a. 1 \<le> a \<and> a \<le> length chatPrompts + 1
              \<and> pick_prompt (rnd_prompt w) (length chatPrompts) init 0 used pos
                  = (random_index (rnd_prompt w (pos + a - 1)) (length chatPrompts), a,
                     (if length chatPrompts < a then {init} else used), pos + a)
              \<and> 0 \<le> random_index (rnd_prompt w (pos + a - 1)) (length chatPrompts)
              \<and> random_index (rnd_prompt w (pos + a - 1)) (length chatPrompts) < int (length chatPrompts)
              \<and> (length chatPrompts < a
                    \<longleftrightarrow> (\<forall>k. k < length chatPrompts
                              \<longrightarrow> random_index (rnd_prompt w (pos + k)) (length chatPrompts) \<in> used))
              \<and> (a \<le> length chatPrompts
                    \<longrightarrow> random_index (rnd_prompt w (pos + a - 1)) (length chatPrompts) \<notin> used)
              \<and> ((\<forall>i. 0 \<le> i \<and> i < int (length chatPrompts) \<longrightarrow> i \<in> used)
                    \<longrightarrow> length chatPrompts < a))"
proof -
  let ?len = "length chatPrompts"
  have len: "0 < ?len" using ne by simp
  have rb: "\<And>k. 0 \<le> random_index (rnd_prompt w k) ?len \<and> random_index (rnd_prompt w k) ?len < int ?len"
    using random_index_bounds[OF _ _ len] r by blast
  let ?i0 = "random_index (rnd_initial w) ?len"
  have ib: "0 \<le> ?i0 \<and> ?i0 < int ?len"
    using random_index_bounds[OF _ _ len] r0 by blast
  let ?st0 = "\<lparr>usedPromptIndices = {?i0}, draws = 0, chosen = [?i0],
                sent = [getRandomItem chatPrompts ?i0 (rnd_item w)], received = 0, skipped = 0\<rparr>"
  have g: "getRandomItem chatPrompts ?i0 (rnd_item w) = Some (chatPrompts ! nat ?i0)"
    using ib by (simp add: getRandomItem_in_range)
  have c0: "\<forall>i. i \<in> set (chosen ?st0) \<longrightarrow> 0 \<le> i \<and> i < int ?len"
    using ib by simp
  have s0: "None \<notin> set (sent ?st0)"
    using g by simp
  have c1: "\<forall>i. i \<in> set (chosen (?st0\<lparr>received := 1\<rparr>)) \<longrightarrow> 0 \<le> i \<and> i < int ?len"
    using ib by simp
  have s1: "None \<notin> set (sent (?st0\<lparr>received := 1\<rparr>))"
    using g by simp
  have loop: "\<And>pc. (\<forall>i. i \<in> set (chosen (chat_loop w chatPrompts ?i0 pc 0 (?st0\<lparr>received := 1\<rparr>)))
                  \<longrightarrow> 0 \<le> i \<and> i < int ?len)
              \<and> None \<notin> set (sent (chat_loop w chatPrompts ?i0 pc 0 (?st0\<lparr>received := 1\<rparr>)))"
    using chat_loop_in_bounds[OF ne r c1 s1] by blast
  have session: "(\<forall>i. i \<in> set (chosen (snd (startChatSession w mn mx chatPrompts)))
             \<longrightarrow> 0 \<le> i \<and> i < int ?len)
       \<and> None \<notin> set (sent (snd (startChatSession w mn mx chatPrompts)))"
  proof (cases "getAgentInfo (agents_get w) (agents_jitter w) = None
                \<or> getAgentInfo (agents_get w) (agents_jitter w) = Some 0")
    case True
    from startChatSession_no_agent[OF True] show ?thesis by simp
  next
    case False
    then obtain aid where aid: "getAgentInfo (agents_get w) (agents_jitter w) = Some aid" "aid \<noteq> 0"
      by (cases "getAgentInfo (agents_get w) (agents_jitter w)") auto
    show ?thesis
    proof (cases "no_response (sendChatMessage (post w 0) (jitter w 0))")
      case True
      from startChatSession_initial_failed[OF aid True] c0 s0 show ?thesis by simp
    next
      case False
      from startChatSession_runs[OF aid False] loop c1 s1 show ?thesis by simp
    qed
  qed
  obtain a where a: "1 \<le> a" "a \<le> ?len + 1"
    "pick_prompt (rnd_prompt w) ?len init 0 used pos
       = (random_index (rnd_prompt w (pos + a - 1)) ?len, a, (if ?len < a then {init} else used), pos + a)"
    "?len < a \<longleftrightarrow> (\<forall>k. k < ?len \<longrightarrow> random_index (rnd_prompt w (pos + k)) ?len \<in> used)"
    "a \<le> ?len \<longrightarrow> random_index (rnd_prompt w (pos + a - 1)) ?len \<notin> used"
    using pick_prompt_from_zero[of ?len "rnd_prompt w" init used pos] by blast
  have full: "(\<forall>i. 0 \<le> i \<and> i < int ?len \<longrightarrow> i \<in> used) \<longrightarrow> ?len < a"
    using a(4) rb by blast
  have pick: "\<exists>a. 1 \<le> a \<and> a \<le> ?len + 1
              \<and> pick_prompt (rnd_prompt w) ?len init 0 used pos
                  = (random_index (rnd_prompt w (pos + a - 1)) ?len, a,
                     (if ?len < a then {init} else used), pos + a)
              \<and> 0 \<le> random_index (rnd_prompt w (pos + a - 1)) ?len
              \<and> random_index (rnd_prompt w (pos + a - 1)) ?len < int ?len
              \<and> (?len < a \<longleftrightarrow> (\<forall>k. k < ?len \<longrightarrow> random_index (rnd_prompt w (pos + k)) ?len \<in> used))
              \<and> (a \<le> ?len \<longrightarrow> random_index (rnd_prompt w (pos + a - 1)) ?len \<notin> used)
              \<and> ((\<forall>i. 0 \<le> i \<and> i < int ?len \<longrightarrow> i \<in> used) \<longrightarrow> ?len < a)"
    using a(1) a(2) a(3) a(4) a(5) full rb by (intro exI[of _ a]) blast
  from session pick show ?thesis by blast
qed

text \<open>
  One pass of the session's loop, tied to the session's own state: the selection starts
  from the used set and the draw position of the state, the index it chooses is added
  to the used set, and a pass that does not reset chooses an index that the state did
  not hold as used.
\<close>

lemma chat_pass_selection:
  "\<exists>a. 1 \<le> a \<and> a \<le> length chatPrompts + 1
     \<and> chosen (chat_pass w chatPrompts init st)
         = chosen st @ [random_index (rnd_prompt w (draws st + a - 1)) (length chatPrompts)]
     \<and> usedPromptIndices (chat_pass w chatPrompts init st)
         = insert (random_index (rnd_prompt w (draws st + a - 1)) (length chatPrompts))
             (if length chatPrompts < a then {init} else usedPromptIndices st)
     \<and> draws (chat_pass w chatPrompts init st) = draws st + a
     \<and> (length chatPrompts < a
           \<longleftrightarrow> (\<forall>k. k < length chatPrompts
                     \<longrightarrow> random_index (rnd_prompt w (draws st + k)) (length chatPrompts)
                           \<in> usedPromptIndices st))
     \<and> (a \<le> length chatPrompts
           \<longrightarrow> random_index (rnd_prompt w (draws st + a - 1)) (length chatPrompts)
                 \<notin> usedPromptIndices st)"
proof -
  obtain a where a: "1 \<le> a" "a \<le> length chatPrompts + 1"
    "pick_prompt (rnd_prompt w) (length chatPrompts) init 0 (usedPromptIndices st) (draws st)
       = (random_index (rnd_prompt w (draws st + a - 1)) (length chatPrompts), a,
          (if length chatPrompts < a then {init} else usedPromptIndices st), draws st + a)"
    "length chatPrompts < a
       \<longleftrightarrow> (\<forall>k. k < length chatPrompts
                 \<longrightarrow> random_index (rnd_prompt w (draws st + k)) (length chatPrompts)
                       \<in> usedPromptIndices st)"
    "a \<le> length chatPrompts
       \<longrightarrow> random_index (rnd_prompt w (draws st + a - 1)) (length chatPrompts)
             \<notin> usedPromptIndices st"
    using pick_prompt_from_zero[of "length chatPrompts" "rnd_prompt w" init "usedPromptIndices st" "draws st"]
    by blast
  have c: "chosen (chat_pass w chatPrompts init st)
         = chosen st @ [random_index (rnd_prompt w (draws st + a - 1)) (length chatPrompts)]"
    by (cases "no_response (sendChatMessage (post w (length (sent st))) (jitter w (length (sent st))))")
       (simp_all add: chat_pass_def a(3) Let_def)
  have u: "usedPromptIndices (chat_pass w chatPrompts init st)
         = insert (random_index (rnd_prompt w (draws st + a - 1)) (length chatPrompts))
             (if length chatPrompts < a then {init} else usedPromptIndices st)"
    by (cases "no_response (sendChatMessage (post w (length (sent st))) (jitter w (length (sent st))))")
       (simp_all add: chat_pass_def a(3) Let_def)
  have d: "draws (chat_pass w chatPrompts init st) = draws st + a"
    by (cases "no_response (sendChatMessage (post w (length (sent st))) (jitter w (length (sent st))))")
       (simp_all add: chat_pass_def a(3) Let_def)
  from a(1) a(2) c u d a(4) a(5) show ?thesis
    by (intro exI[of _ a] conjI)
qed

lemma chat_pass_used:
  assumes "init \<in> usedPromptIndices st"
  shows "init \<in> usedPromptIndices (chat_pass w chatPrompts init st)
         \<and> chosen (chat_pass w chatPrompts init st) \<noteq> []
         \<and> last (chosen (chat_pass w chatPrompts init st))
             \<in> usedPromptIndices (chat_pass w chatPrompts init st)"
proof -
  obtain a where a:
    "chosen (chat_pass w chatPrompts init st)
         = chosen st @ [random_index (rnd_prompt w (draws st + a - 1)) (length chatPrompts)]"
    "usedPromptIndices (chat_pass w chatPrompts init st)
         = insert (random_index (rnd_prompt w (draws st + a - 1)) (length chatPrompts))
             (if length chatPrompts < a then {init} else usedPromptIndices st)"
    using chat_pass_selection[of chatPrompts w init st] by blast
  show ?thesis
    unfolding a using assms by simp
qed

lemma chat_loop_used:
  "init \<in> usedPromptIndices st \<Longrightarrow> chosen st \<noteq> []
     \<Longrightarrow> last (chosen st) \<in> usedPromptIndices st
     \<Longrightarrow> init \<in> usedPromptIndices (chat_loop w chatPrompts init promptCount n st)
         \<and> chosen (chat_loop w chatPrompts init promptCount n st) \<noteq> []
         \<and> last (chosen (chat_loop w chatPrompts init promptCount n st))
             \<in> usedPromptIndices (chat_loop w chatPrompts init promptCount n st)"
proof (induction w chatPrompts init promptCount n st rule: chat_loop.induct)
  case (1 w chatPrompts init promptCount n st)
  show ?case
  proof (cases "int n < promptCount")
    case False
    then have "chat_loop w chatPrompts init promptCount n st = st"
      by (subst chat_loop.simps) simp
    with "1.prems" show ?thesis by simp
  next
    case True
    then have u: "chat_loop w chatPrompts init promptCount n st
        = chat_loop w chatPrompts init promptCount (n + 1) (chat_pass w chatPrompts init st)"
      by (subst chat_loop.simps) simp
    have p: "init \<in> usedPromptIndices (chat_pass w chatPrompts init st)
         \<and> chosen (chat_pass w chatPrompts init st) \<noteq> []
         \<and> last (chosen (chat_pass w chatPrompts init st))
             \<in> usedPromptIndices (chat_pass w chatPrompts init st)"
      using chat_pass_used[OF "1.prems"(1)] .
    from p have p1: "init \<in> usedPromptIndices (chat_pass w chatPrompts init st)" by simp
    from p have p2: "chosen (chat_pass w chatPrompts init st) \<noteq> []" by simp
    from p have p3: "last (chosen (chat_pass w chatPrompts init st))
             \<in> usedPromptIndices (chat_pass w chatPrompts init st)" by simp
    from "1.IH"[OF True p1 p2 p3] show ?thesis
      unfolding u .
  qed
qed

text \<open>
  In every session that makes its opening send, the opening index and the index chosen
  last are in the used set at the end.
\<close>

lemma session_used_set:
  assumes agent: "getAgentInfo (agents_get w) (agents_jitter w) = Some aid" "aid \<noteq> 0"
  shows "random_index (rnd_initial w) (length chatPrompts)
           \<in> usedPromptIndices (snd (startChatSession w mn mx chatPrompts))
         \<and> chosen (snd (startChatSession w mn mx chatPrompts)) \<noteq> []
         \<and> last (chosen (snd (startChatSession w mn mx chatPrompts)))
             \<in> usedPromptIndices (snd (startChatSession w mn mx chatPrompts))"
proof (cases "no_response (sendChatMessage (post w 0) (jitter w 0))")
  case True
  from startChatSession_initial_failed[OF agent True, of mn mx chatPrompts] show ?thesis
    by simp
next
  case False
  let ?i0 = "random_index (rnd_initial w) (length chatPrompts)"
  let ?st1 = "\<lparr>usedPromptIndices = {?i0}, draws = 0, chosen = [?i0],
                sent = [getRandomItem chatPrompts ?i0 (rnd_item w)], received = 1, skipped = 0\<rparr>"
  have i: "?i0 \<in> usedPromptIndices ?st1" by simp
  have c: "chosen ?st1 \<noteq> []" by simp
  have l: "last (chosen ?st1) \<in> usedPromptIndices ?st1" by simp
  from chat_loop_used[OF i c l] startChatSession_runs[OF agent False, of mn mx chatPrompts]
  show ?thesis by simp
qed

text \<open>
  Claim C4 fails on the code in its second half. With three prompts, the opening index
  0 and draws that are all 0, the first selection starts with only index 0 used; it
  resets the used set after four draws although the indices 1 and 2 were never used,
  and it chooses index 0: the session sends the opening prompt twice.
\<close>

theorem prompt_selection_repeats_opener:
  "pick_prompt (\<lambda>k. 0) 3 0 0 {0} 0 = (0, 4, {0}, 4)
   \<and> chosen (snd (startChatSession
         (example_chat_world (\<lambda>j k. Inr (Messages [Elem (Some ''Hello'')])) (\<lambda>k. 0))
         2 2 [''a'', ''b'', ''c''])) = [0, 0]
   \<and> sent (snd (startChatSession
         (example_chat_world (\<lambda>j k. Inr (Messages [Elem (Some ''Hello'')])) (\<lambda>k. 0))
         2 2 [''a'', ''b'', ''c''])) = [Some ''a'', Some ''a'']
   \<and> draws (snd (startChatSession
         (example_chat_world (\<lambda>j k. Inr (Messages [Elem (Some ''Hello'')])) (\<lambda>k. 0))
         2 2 [''a'', ''b'', ''c''])) = 4"
  by code_simp

section \<open>Properties of the chat session\<close>

lemma sendChatMessage_failed:
  "fst (withRetry req rnd 3 5000 30000) = Inl e \<Longrightarrow> sendChatMessage req rnd = Data (Messages [])"
  by (simp add: sendChatMessage_def)

text \<open>
  Claim C7, as the code has it, for a session that has found its agent. A call of
  \<open>sendChatMessage\<close> whose request fails for good returns the empty array, which the
  session reads as a missing reply. When the opening send has no reply the session ends
  at once with \<open>false\<close>, after that one send. Otherwise the session returns \<open>true\<close>
  and has made every planned send, \<open>1 + promptCount\<close> in all: each follow-up send
  with no reply is counted as skipped and the loop goes on to the next.
\<close>

theorem failed_followups_are_skipped:
  assumes agent: "getAgentInfo (agents_get w) (agents_jitter w) = Some aid" "aid \<noteq> 0"
  shows "(\<forall>j e. fst (withRetry (post w j) (jitter w j) 3 5000 30000) = Inl e
             \<longrightarrow> no_response (sendChatMessage (post w j) (jitter w j)))
       \<and> (no_response (sendChatMessage (post w 0) (jitter w 0))
             \<longrightarrow> fst (startChatSession w mn mx chatPrompts) = False
               \<and> length (sent (snd (startChatSession w mn mx chatPrompts))) = 1
               \<and> skipped (snd (startChatSession w mn mx chatPrompts)) = 0
               \<and> received (snd (startChatSession w mn mx chatPrompts)) = 0)
       \<and> (\<not> no_response (sendChatMessage (post w 0) (jitter w 0))
             \<longrightarrow> fst (startChatSession w mn mx chatPrompts) = True
               \<and> length (sent (snd (startChatSession w mn mx chatPrompts)))
                   = 1 + nat (\<lfloor>rnd_count w * of_int (mx - mn + 1)\<rfloor> + mn - 1)
               \<and> skipped (snd (startChatSession w mn mx chatPrompts))
                   = length (filter (\<lambda>j. no_response (sendChatMessage (post w j) (jitter w j)))
                       [1..<1 + nat (\<lfloor>rnd_count w * of_int (mx - mn + 1)\<rfloor> + mn - 1)])
               \<and> received (snd (startChatSession w mn mx chatPrompts))
                   = 1 + length (filter (\<lambda>j. \<not> no_response (sendChatMessage (post w j) (jitter w j)))
                       [1..<1 + nat (\<lfloor>rnd_count w * of_int (mx - mn + 1)\<rfloor> + mn - 1)]))"
proof -
  let ?pc = "\<lfloor>rnd_count w * of_int (mx - mn + 1)\<rfloor> + mn - 1"
  let ?i0 = "random_index (rnd_initial w) (length chatPrompts)"
  let ?st1 = "\<lparr>usedPromptIndices = {?i0}, draws = 0, chosen = [?i0],
                sent = [getRandomItem chatPrompts ?i0 (rnd_item w)], received = 1, skipped = 0\<rparr>"
  have a: "\<forall>j e. fst (withRetry (post w j) (jitter w j) 3 5000 30000) = Inl e
             \<longrightarrow> no_response (sendChatMessage (post w j) (jitter w j))"
    by (simp add: sendChatMessage_failed)
  have b: "no_response (sendChatMessage (post w 0) (jitter w 0))
             \<longrightarrow> fst (startChatSession w mn mx chatPrompts) = False
               \<and> length (sent (snd (startChatSession w mn mx chatPrompts))) = 1
               \<and> skipped (snd (startChatSession w mn mx chatPrompts)) = 0
               \<and> received (snd (startChatSession w mn mx chatPrompts)) = 0"
    using startChatSession_initial_failed[OF agent, of mn mx chatPrompts] by simp
  have c: "\<not> no_response (sendChatMessage (post w 0) (jitter w 0))
             \<longrightarrow> fst (startChatSession w mn mx chatPrompts) = True
               \<and> length (sent (snd (startChatSession w mn mx chatPrompts))) = 1 + nat ?pc
               \<and> skipped (snd (startChatSession w mn mx chatPrompts))
                   = length (filter (\<lambda>j. no_response (sendChatMessage (post w j) (jitter w j)))
                       [1..<1 + nat ?pc])
               \<and> received (snd (startChatSession w mn mx chatPrompts))
                   = 1 + length (filter (\<lambda>j. \<not> no_response (sendChatMessage (post w j) (jitter w j)))
                       [1..<1 + nat ?pc])"
  proof
    assume ok: "\<not> no_response (sendChatMessage (post w 0) (jitter w 0))"
    have run: "startChatSession w mn mx chatPrompts = (True, chat_loop w chatPrompts ?i0 ?pc 0 ?st1)"
      using startChatSession_runs[OF agent ok, of mn mx chatPrompts] .
    show "fst (startChatSession w mn mx chatPrompts) = True
               \<and> length (sent (snd (startChatSession w mn mx chatPrompts))) = 1 + nat ?pc
               \<and> skipped (snd (startChatSession w mn mx chatPrompts))
                   = length (filter (\<lambda>j. no_response (sendChatMessage (post w j) (jitter w j)))
                       [1..<1 + nat ?pc])
               \<and> received (snd (startChatSession w mn mx chatPrompts))
                   = 1 + length (filter (\<lambda>j. \<not> no_response (sendChatMessage (post w j) (jitter w j)))
                       [1..<1 + nat ?pc])"
      unfolding run using chat_loop_counts[of w chatPrompts ?i0 ?pc 0 ?st1] by simp
  qed
  show ?thesis
    by (intro conjI a b c)
qed

text \<open>
  Claim C7, at a session of three planned sends whose second request fails with HTTP 500:
  the session completes with three sends, one of them skipped.
\<close>

theorem failed_followups_are_skipped_witness:
  "getAgentInfo
     (agents_get (example_chat_world
        (\<lambda>j k. if j = 1 then Inl (HttpError 500) else Inr (Messages [Elem (Some ''Hello'')])) (\<lambda>k. 1 / 2)))
     (agents_jitter (example_chat_world
        (\<lambda>j k. if j = 1 then Inl (HttpError 500) else Inr (Messages [Elem (Some ''Hello'')])) (\<lambda>k. 1 / 2)))
     = Some 4717
   \<and> (4717 :: nat) \<noteq> 0
   \<and> fst (startChatSession (example_chat_world
        (\<lambda>j k. if j = 1 then Inl (HttpError 500) else Inr (Messages [Elem (Some ''Hello'')])) (\<lambda>k. 1 / 2))
        3 3 [''a'', ''b'', ''c'']) = True
   \<and> length (sent (snd (startChatSession (example_chat_world
        (\<lambda>j k. if j = 1 then Inl (HttpError 500) else Inr (Messages [Elem (Some ''Hello'')])) (\<lambda>k. 1 / 2))
        3 3 [''a'', ''b'', ''c'']))) = 3
   \<and> skipped (snd (startChatSession (example_chat_world
        (\<lambda>j k. if j = 1 then Inl (HttpError 500) else Inr (Messages [Elem (Some ''Hello'')])) (\<lambda>k. 1 / 2))
        3 3 [''a'', ''b'', ''c''])) = 1"
proof -
  let ?w = "example_chat_world
        (\<lambda>j k. if j = 1 then Inl (HttpError 500) else Inr (Messages [Elem (Some ''Hello'')])) (\<lambda>k. 1 / 2)"
  have agent: "getAgentInfo (agents_get ?w) (agents_jitter ?w) = Some 4717"
    by code_simp
  have nz: "(4717 :: nat) \<noteq> 0" by simp
  have e: "fst (startChatSession ?w 3 3 [''a'', ''b'', ''c'']) = True
     \<and> length (sent (snd (startChatSession ?w 3 3 [''a'', ''b'', ''c'']))) = 3
     \<and> skipped (snd (startChatSession ?w 3 3 [''a'', ''b'', ''c''])) = 1"
    by code_simp
  from failed_followups_are_skipped[OF agent nz, of 3 3 "[''a'', ''b'', ''c'']"] agent nz e
  show ?thesis by blast
qed

text \<open>
  Claim C7 as stated fails at the first send: when the opening request fails with HTTP
  500, the session of three planned sends returns \<open>false\<close> after that one send.
\<close>

theorem failed_opening_send_aborts:
  "startChatSession (example_chat_world (\<lambda>j k. Inl (HttpError 500)) (\<lambda>k. 1 / 2)) 3 3 [''a'', ''b'', ''c'']
     = (False, \<lparr>usedPromptIndices = {0}, draws = 0, chosen = [0], sent = [Some ''a''],
                received = 0, skipped = 0\<rparr>)"
  by code_simp

text \<open>
  Claim C1 fails on the code. When every reply is the sentinel "Insufficient balance.",
  \<open>sendChatMessage\<close> returns its marker, which \<open>startChatSession\<close> does not read as a
  missing reply and never tests: the session of three planned sends makes all three and
  returns \<open>true\<close>.
\<close>

theorem insufficient_balance_is_not_checked:
  "sendChatMessage (\<lambda>k. Inr (Messages [Elem (Some ''Insufficient balance.'')])) (\<lambda>k. 0)
     = InsufficientBalance
   \<and> no_response InsufficientBalance = False
   \<and> fst (startChatSession
        (example_chat_world (\<lambda>j k. Inr (Messages [Elem (Some ''Insufficient balance.'')])) (\<lambda>k. 1 / 2))
        3 3 [''a'', ''b'', ''c'']) = True
   \<and> sent (snd (startChatSession
        (example_chat_world (\<lambda>j k. Inr (Messages [Elem (Some ''Insufficient balance.'')])) (\<lambda>k. 1 / 2))
        3 3 [''a'', ''b'', ''c''])) = [Some ''a'', Some ''b'', Some ''b'']
   \<and> received (snd (startChatSession
        (example_chat_world (\<lambda>j k. Inr (Messages [Elem (Some ''Insufficient balance.'')])) (\<lambda>k. 1 / 2))
        3 3 [''a'', ''b'', ''c''])) = 3"
  by code_simp

section \<open>Properties of authenticate\<close>

lemma login_throw_is_null:
  "fst (withRetry req rnd 3 5000 60000) = Inl e \<Longrightarrow> login req rnd = BNull"
  by (simp add: login_def login_inner_def)

text \<open>
  Whatever error the login request of the first attempt ends with, 404 or not, the loop
  ends there: one call of \<open>initSIWE\<close>, no second attempt.
\<close>

lemma first_login_throw_ends_loop:
  assumes i: "body_truthy (initSIWE (siwe_init w 1) (init_jitter w 1))"
    and s: "signMessage w 1 = Inr sg" "sg \<noteq> []"
    and a: "body_truthy (authenticateSIWE (siwe_authenticate w 1) (authenticate_jitter w 1))"
           "truthy (body_field (authenticateSIWE (siwe_authenticate w 1) (authenticate_jitter w 1)) ''token'')"
    and l: "fst (withRetry (login_post w 1) (login_jitter w 1) 3 5000 60000) = Inl e"
  shows "auth_loop w wa \<lparr>attemptCount = 0, initCalls = 0, loginCalls = 0, pauses = 0\<rparr>
           = (None, \<lparr>attemptCount = 1, initCalls = 1, loginCalls = 1, pauses = 0\<rparr>)"
  using i s a login_throw_is_null[OF l]
  by (subst auth_loop.simps) (simp add: maxAttempts_def Let_def)

text \<open>
  Claim C3 fails on the code in its second half. A login request that fails with HTTP
  404 ends the loop after one attempt, with one call of \<open>initSIWE\<close>; but so does a login
  request that fails with HTTP 500, since \<open>login\<close> returns \<open>null\<close> for both.
\<close>

theorem login_error_ends_attempts:
  "authenticate (example_auth_world (HttpError 404)) (\<lambda>k. Inr ''0xA1'') ''0xab''
     = (None, \<lparr>attemptCount = 1, initCalls = 1, loginCalls = 1, pauses = 0\<rparr>)
   \<and> authenticate (example_auth_world (HttpError 500)) (\<lambda>k. Inr ''0xA1'') ''0xab''
     = (None, \<lparr>attemptCount = 1, initCalls = 1, loginCalls = 1, pauses = 0\<rparr>)
   \<and> is_null (login (\<lambda>k. Inl (HttpError 404)) (\<lambda>k. 0))
   \<and> is_null (login (\<lambda>k. Inl (HttpError 500)) (\<lambda>k. 0))
   \<and> maxAttempts = 2"
  by code_simp

end
